theory Spec2Isabelle
  imports Complex_Main "HOL-Library.Word" "HOL-Library.List_Lexorder" "HOL-Library.Char_ord"
begin

unbundle bit_operations_syntax

section \<open>JavaScript values used by the sources\<close>

text \<open>
  Strings are lists of 8-bit characters; the sources only build and inspect ASCII text
  (timestamps, cookie headers, base32 secrets), and the theorems below say so where it
  matters. JavaScript numbers that hold integers are \<open>int\<close>; the bitwise operators work
  on the 32-bit two's complement image of their operands and are written out as such.
  A thrown \<open>Error(msg)\<close> is a value \<open>Error msg\<close> on the left of a sum.
\<close>

datatype js_error = Error string

definition digit_char :: "nat \<Rightarrow> char" where
  "digit_char d = ''0123456789'' ! d"

text \<open>\<open>String(n)\<close> and \<open>n.toString()\<close> for a non-negative integer.\<close>

fun toString10 :: "nat \<Rightarrow> string" where
  "toString10 n =
     (if n < 10 then [digit_char n] else toString10 (n div 10) @ [digit_char (n mod 10)])"

declare toString10.simps [simp del]

text \<open>\<open>n.toString(2)\<close> for a non-negative integer.\<close>

fun toString2 :: "nat \<Rightarrow> string" where
  "toString2 n =
     (if n < 2 then [digit_char n] else toString2 (n div 2) @ [digit_char (n mod 2)])"

declare toString2.simps [simp del]

definition js_toString :: "int \<Rightarrow> string" where
  "js_toString i = (if i < 0 then CHR ''-'' # toString10 (nat (- i)) else toString10 (nat i))"

text \<open>\<open>s.padStart(n, c)\<close> with a one-character pad string.\<close>

definition padStart :: "nat \<Rightarrow> char \<Rightarrow> string \<Rightarrow> string" where
  "padStart n c s = replicate (n - length s) c @ s"

text \<open>\<open>xs.indexOf(x)\<close>; the result \<open>-1\<close> is \<open>None\<close>.\<close>

fun indexOf :: "'a list \<Rightarrow> 'a \<Rightarrow> nat option" where
  "indexOf [] c = None"
| "indexOf (x # xs) c = (if x = c then Some 0 else map_option Suc (indexOf xs c))"

text \<open>\<open>s.toUpperCase()\<close> on ASCII text: the letters a-z go to A-Z, nothing else moves.\<close>

definition toUpperCase_char :: "char \<Rightarrow> char" where
  "toUpperCase_char c =
     (case indexOf ''abcdefghijklmnopqrstuvwxyz'' c of
        Some i \<Rightarrow> ''ABCDEFGHIJKLMNOPQRSTUVWXYZ'' ! i
      | None \<Rightarrow> c)"

definition toUpperCase :: "string \<Rightarrow> string" where
  "toUpperCase s = map toUpperCase_char s"

definition ascii :: "string \<Rightarrow> bool" where
  "ascii s = list_all (\<lambda>c. (of_char c :: nat) < 128) s"

text \<open>The 32-bit operators \<open>&\<close>, \<open>|\<close>, \<open><<\<close> and the remainder \<open>%\<close> (sign of the dividend).\<close>

definition js_and :: "int \<Rightarrow> int \<Rightarrow> int" where
  "js_and a b = sint ((word_of_int a :: 32 word) AND word_of_int b)"

definition js_or :: "int \<Rightarrow> int \<Rightarrow> int" where
  "js_or a b = sint ((word_of_int a :: 32 word) OR word_of_int b)"

definition js_shl :: "int \<Rightarrow> nat \<Rightarrow> int" where
  "js_shl a n = sint (push_bit (n mod 32) (word_of_int a :: 32 word))"

definition js_rem :: "int \<Rightarrow> int \<Rightarrow> int" where
  "js_rem a b = sgn a * (\<bar>a\<bar> mod \<bar>b\<bar>)"

section \<open>TOTP generation (api/user/totp.ts)\<close>

type_synonym byte = "8 word"

definition base32Chars :: string where
  "base32Chars = ''ABCDEFGHIJKLMNOPQRSTUVWXYZ234567''"

text \<open>\<open>secret.toUpperCase().replace(/=+$/, "")\<close>: the trailing run of \<open>=\<close> is removed.\<close>

definition stripTrailingEq :: "string \<Rightarrow> string" where
  "stripTrailingEq s = rev (dropWhile (\<lambda>c. c = CHR ''='') (rev s))"

definition cleanSecret :: "string \<Rightarrow> string" where
  "cleanSecret secret = stripTrailingEq (toUpperCase secret)"

text \<open>
  The first loop of \<open>base32Decode\<close>: each character adds its 5-bit index to the bit
  string, and a character outside the alphabet throws.
\<close>

fun base32_bits :: "string \<Rightarrow> string \<Rightarrow> js_error + string" where
  "base32_bits [] bits = Inr bits"
| "base32_bits (char # rest) bits =
     (case indexOf base32Chars char of
        None \<Rightarrow> Inl (Error ''Invalid base32 character'')
      | Some val \<Rightarrow> base32_bits rest (bits @ padStart 5 (CHR ''0'') (toString2 val)))"

text \<open>\<open>parseInt(s, 2)\<close> on a string of binary digits.\<close>

definition parseInt2 :: "string \<Rightarrow> nat" where
  "parseInt2 s = foldl (\<lambda>acc c. 2 * acc + (if c = CHR ''1'' then 1 else 0)) 0 s"

text \<open>
  The second loop: \<open>floor(bits.length / 8)\<close> bytes, byte \<open>i\<close> read from
  \<open>bits.slice(i * 8, (i + 1) * 8)\<close>; leftover bits are dropped.
\<close>

definition bits_to_bytes :: "string \<Rightarrow> byte list" where
  "bits_to_bytes bits =
     map (\<lambda>i. of_nat (parseInt2 (take 8 (drop (i * 8) bits)))) [0 ..< length bits div 8]"

definition base32Decode :: "string \<Rightarrow> js_error + byte list" where
  "base32Decode secret =
     (case base32_bits (cleanSecret secret) [] of
        Inl e \<Rightarrow> Inl e
      | Inr bits \<Rightarrow> Inr (bits_to_bytes bits))"

text \<open>
  The counter loop \<open>for (let i = 7; i >= 0; i--)\<close>: \<open>counter_loop (Suc i)\<close> is the
  iteration that writes index \<open>i\<close>; a \<open>Uint8Array\<close> cell keeps the value modulo 256.
\<close>

fun counter_loop :: "nat \<Rightarrow> int \<Rightarrow> byte list \<Rightarrow> byte list" where
  "counter_loop 0 tempCounter counterBytes = counterBytes"
| "counter_loop (Suc i) tempCounter counterBytes =
     counter_loop i (tempCounter div 256)
       (counterBytes[i := word_of_int (js_and tempCounter 255)])"

text \<open>\<open>hash[i] ?? 0\<close>: a read outside the array is \<open>undefined\<close>, replaced by 0.\<close>

definition byte_or0 :: "byte list \<Rightarrow> int \<Rightarrow> int" where
  "byte_or0 hash i = (if 0 \<le> i \<and> nat i < length hash then uint (hash ! nat i) else 0)"

text \<open>
  \<open>crypto.subtle\<close> is WebCrypto's, not the repository's. Its HMAC-SHA1 signature is the
  parameter \<open>sign_hmac_sha1 key message\<close>. Its \<open>importKey("raw", key, {name: "HMAC",
  hash: "SHA-1"}, false, ["sign"])\<close> throws a \<open>DataError\<close> when the key has length zero
  and returns the key otherwise; the text of that error is the runtime's,
  \<open>zero_length_key_message\<close>.
\<close>

record subtle_crypto =
  sign_hmac_sha1 :: "byte list \<Rightarrow> byte list \<Rightarrow> byte list"
  zero_length_key_message :: string

definition importKey :: "subtle_crypto \<Rightarrow> byte list \<Rightarrow> js_error + byte list" where
  "importKey crypto key =
     (if key = [] then Inl (Error (zero_length_key_message crypto)) else Inr key)"

text \<open>\<open>hmacSha1(key, message)\<close>: the key is imported, then the message is signed.\<close>

definition hmacSha1 :: "subtle_crypto \<Rightarrow> byte list \<Rightarrow> byte list \<Rightarrow> js_error + byte list" where
  "hmacSha1 crypto key message =
     (case importKey crypto key of
        Inl e \<Rightarrow> Inl e
      | Inr cryptoKey \<Rightarrow> Inr (sign_hmac_sha1 crypto cryptoKey message))"

text \<open>
  \<open>generateTotpValue(totpSecret, timeStep)\<close>. \<open>now_ms\<close> is the reading of
  \<open>Date.now()\<close>; \<open>timeStep\<close> is an integral number of seconds. An error thrown by
  \<open>base32Decode\<close> or by \<open>hmacSha1\<close> leaves the function.
\<close>

definition generateTotpValue ::
  "subtle_crypto \<Rightarrow> int \<Rightarrow> string \<Rightarrow> int \<Rightarrow> js_error + string" where
  "generateTotpValue crypto now_ms totpSecret timeStep =
     (let epoch = now_ms div 1000;
          counter = epoch div timeStep;
          counterBytes = counter_loop 8 counter (replicate 8 0)
      in case base32Decode totpSecret of
           Inl e \<Rightarrow> Inl e
         | Inr key \<Rightarrow>
             (case hmacSha1 crypto key counterBytes of
                Inl e \<Rightarrow> Inl e
              | Inr hash \<Rightarrow>
                  (let offset = js_and (byte_or0 hash (int (length hash) - 1)) 15;
                       binary =
                         js_or
                           (js_or
                             (js_or (js_shl (js_and (byte_or0 hash offset) 127) 24)
                                    (js_shl (js_and (byte_or0 hash (offset + 1)) 255) 16))
                             (js_shl (js_and (byte_or0 hash (offset + 2)) 255) 8))
                           (js_and (byte_or0 hash (offset + 3)) 255);
                       otp = js_rem binary 1000000
                   in Inr (padStart 6 (CHR ''0'') (js_toString otp)))))"

text \<open>
  The algorithm in the words of the specification (RFC 4226 / RFC 6238), in plain
  arithmetic: the counter as 8 big-endian bytes, the offset from the low 4 bits of the
  last hash byte, 4 bytes from the offset as one number reduced to 31 bits, then to 6
  decimal digits.
\<close>

definition rfc_counter_bytes :: "nat \<Rightarrow> byte list" where
  "rfc_counter_bytes c = map (\<lambda>i. of_nat ((c div 256 ^ (7 - i)) mod 256)) [0 ..< 8]"

definition rfc_truncate :: "byte list \<Rightarrow> nat" where
  "rfc_truncate hash =
     (let off = unat (last hash) mod 16
      in (unat (hash ! off) * 2 ^ 24 + unat (hash ! (off + 1)) * 2 ^ 16
          + unat (hash ! (off + 2)) * 2 ^ 8 + unat (hash ! (off + 3))) mod 2 ^ 31)"

fun fixed_digits :: "nat \<Rightarrow> nat \<Rightarrow> string" where
  "fixed_digits 0 n = []"
| "fixed_digits (Suc k) n = fixed_digits k (n div 10) @ [digit_char (n mod 10)]"

definition rfc_totp ::
  "(byte list \<Rightarrow> byte list \<Rightarrow> byte list) \<Rightarrow> byte list \<Rightarrow> nat \<Rightarrow> nat \<Rightarrow> string" where
  "rfc_totp hmac key unix_seconds step =
     fixed_digits 6
       (rfc_truncate (hmac key (rfc_counter_bytes (unix_seconds div step))) mod 1000000)"

definition is_digit :: "char \<Rightarrow> bool" where
  "is_digit c = (c \<in> set ''0123456789'')"

text \<open>
  The secret in the words of the specification. Normalizing a secret puts the letters
  a-z in upper case and removes the \<open>=\<close> characters at its end. Base32 (RFC 4648) gives
  the characters A-Z the values 0-25 and 2-7 the values 26-31; \<open>n\<close> characters are the
  digits, most significant first, of a number of \<open>5 * n\<close> bits, and the decoded bytes are
  the leading \<open>floor(5 * n / 8)\<close> groups of 8 of those bits.
\<close>

definition ascii_upper :: "char \<Rightarrow> char" where
  "ascii_upper c =
     (if CHR ''a'' \<le> c \<and> c \<le> CHR ''z'' then char_of (of_char c - 32 :: nat) else c)"

definition padding_length :: "string \<Rightarrow> nat" where
  "padding_length s = length (takeWhile (\<lambda>c. c = CHR ''='') (rev s))"

definition normalized_secret :: "string \<Rightarrow> string" where
  "normalized_secret s = map ascii_upper (take (length s - padding_length s) s)"

definition base32_value :: "char \<Rightarrow> nat" where
  "base32_value c =
     (if CHR ''A'' \<le> c \<and> c \<le> CHR ''Z'' then of_char c - of_char CHR ''A''
      else 26 + (of_char c - of_char CHR ''2''))"

definition rfc_base32_number :: "string \<Rightarrow> nat" where
  "rfc_base32_number s = foldl (\<lambda>n c. 32 * n + base32_value c) 0 s"

definition rfc_base32_bytes :: "string \<Rightarrow> byte list" where
  "rfc_base32_bytes s =
     map (\<lambda>j. of_nat (rfc_base32_number s div 2 ^ (5 * length s - 8 * (j + 1)) mod 256))
       [0 ..< 5 * length s div 8]"

text \<open>
  A stand-in for WebCrypto with the right output length, used to run the definitions on
  concrete inputs: the signature is the first 20 bytes of message, key and padding.
\<close>

definition demo_hmac :: "byte list \<Rightarrow> byte list \<Rightarrow> byte list" where
  "demo_hmac key msg = take 20 (msg @ key @ replicate 20 9)"

definition demo_crypto :: subtle_crypto where
  "demo_crypto = \<lparr>sign_hmac_sha1 = demo_hmac,
                   zero_length_key_message = ''Zero-length key is not supported''\<rparr>"
section \<open>Cookie conversion (api/user/sessionAPI.ts, api/user/sessionOMS.ts)\<close>

text \<open>
  The regular expression classes on ASCII text: \<open>\s\<close> is space, tab, line feed,
  vertical tab, form feed and carriage return; \<open>\w\<close> is a letter, a digit or \<open>_\<close>.
\<close>

definition is_space :: "char \<Rightarrow> bool" where
  "is_space c = (c \<in> set [CHR '' '', CHR 0x09, CHR 0x0A, CHR 0x0B, CHR 0x0C, CHR 0x0D])"

definition is_word :: "char \<Rightarrow> bool" where
  "is_word c =
     (c \<in> set ''abcdefghijklmnopqrstuvwxyzABCDEFGHIJKLMNOPQRSTUVWXYZ0123456789_'')"

text \<open>
  The lookahead \<open>(?=\s*\w+=)\<close> on the text after a comma. The three classes are
  disjoint, so the greedy reading is the only one: all the white space, then all the word
  characters (at least one), then \<open>=\<close>.
\<close>

definition name_eq_ahead :: "string \<Rightarrow> bool" where
  "name_eq_ahead s =
     (let r = dropWhile is_space s
      in takeWhile is_word r \<noteq> [] \<and>
         (case dropWhile is_word r of [] \<Rightarrow> False | c # _ \<Rightarrow> c = CHR ''=''))"

text \<open>
  \<open>setCookie.split(/,(?=\s*\w+=)/)\<close>: a scan from left to right; \<open>cur\<close> is the
  fragment collected since the last split. A comma with the lookahead closes the
  fragment and is dropped; every other character joins the fragment.
\<close>

fun split_loop :: "string \<Rightarrow> string \<Rightarrow> string list" where
  "split_loop cur [] = [cur]"
| "split_loop cur (c # cs) =
     (if c = CHR '','' \<and> name_eq_ahead cs then cur # split_loop [] cs
      else split_loop (cur @ [c]) cs)"

definition cookie_fragments :: "string \<Rightarrow> string list" where
  "cookie_fragments setCookie = split_loop [] setCookie"

text \<open>\<open>s.trim()\<close> and \<open>xs.join(sep)\<close>.\<close>

definition trim :: "string \<Rightarrow> string" where
  "trim s = rev (dropWhile is_space (rev (dropWhile is_space s)))"

fun join :: "string \<Rightarrow> string list \<Rightarrow> string" where
  "join sep [] = []"
| "join sep [x] = x"
| "join sep (x # y # ys) = x @ sep @ join sep (y # ys)"

text \<open>\<open>cookie.split(";")[0].trim()\<close>: the text before the first semicolon, trimmed.\<close>

definition name_value :: "string \<Rightarrow> string" where
  "name_value cookie = trim (takeWhile (\<lambda>c. c \<noteq> CHR '';'') cookie)"

text \<open>
  \<open>convertSetCookieToCookie\<close>; the function of sessionAPI.ts and the local function of
  the same name in \<open>generateOMSSession\<close> have the same body.
\<close>

definition convertSetCookieToCookie :: "string \<Rightarrow> string" where
  "convertSetCookieToCookie setCookie = join ''; '' (map name_value (cookie_fragments setCookie))"

text \<open>
  \<open>[loginCookies, twofaCookies].filter(Boolean).join(", ")\<close>: the batches of the two
  responses as one raw blob, empty batches left out.
\<close>

definition allCookies :: "string \<Rightarrow> string \<Rightarrow> string" where
  "allCookies loginCookies twofaCookies =
     join '', '' (filter (\<lambda>s. s \<noteq> []) [loginCookies, twofaCookies])"

text \<open>
  A fragment \<open>f\<close> followed by \<open>rest\<close> holds no comma at which the scan would have
  split: no comma of \<open>f\<close> has the lookahead in what follows it.
\<close>

definition no_inner_split :: "string \<Rightarrow> string \<Rightarrow> bool" where
  "no_inner_split f rest =
     (\<forall>i<length f. f ! i = CHR '','' \<longrightarrow> \<not> name_eq_ahead (drop (Suc i) f @ rest))"

section \<open>Timestamps (api/_shared/time.ts)\<close>

text \<open>
  The calendar fields that \<open>Date\<close> reports for an instant: \<open>getUTCFullYear\<close>,
  \<open>getUTCMonth\<close> (0 to 11), \<open>getUTCDate\<close>, \<open>getUTCHours\<close>, \<open>getUTCMinutes\<close>,
  \<open>getUTCSeconds\<close>. The decomposition of an instant into these fields is the runtime's;
  it is the parameter \<open>date_utc\<close>, from milliseconds since the epoch to the fields.
\<close>

record utc_fields =
  utcFullYear :: nat
  utcMonth :: nat
  utcDate :: nat
  utcHours :: nat
  utcMinutes :: nat
  utcSeconds :: nat

definition pad2 :: "nat \<Rightarrow> string" where
  "pad2 n = padStart 2 (CHR ''0'') (toString10 n)"

text \<open>
  \<open>getISTTimestamp()\<close>: the fields of the instant 5 hours 30 minutes after \<open>now\<close>, as
  \<open>YYYY-MM-DD HH:mm:ss\<close>.
\<close>

definition getISTTimestamp :: "(int \<Rightarrow> utc_fields) \<Rightarrow> int \<Rightarrow> string" where
  "getISTTimestamp date_utc now_ms =
     (let istOffset = 19800000;
          istTime = date_utc (now_ms + istOffset);
          year = utcFullYear istTime;
          month = pad2 (utcMonth istTime + 1);
          day = pad2 (utcDate istTime);
          hours = pad2 (utcHours istTime);
          minutes = pad2 (utcMinutes istTime);
          seconds = pad2 (utcSeconds istTime)
      in toString10 year @ ''-'' @ month @ ''-'' @ day @ '' '' @ hours @ '':'' @ minutes
         @ '':'' @ seconds)"

section \<open>Freshness check (api/instruments/refresh-check.ts)\<close>

text \<open>\<open>s.split(c)\<close> with a one-character separator.\<close>

fun js_split :: "char \<Rightarrow> string \<Rightarrow> string list" where
  "js_split sep [] = [[]]"
| "js_split sep (c # cs) =
     (if c = sep then [] # js_split sep cs
      else (case js_split sep cs of [] \<Rightarrow> [[c]] | f # fs \<Rightarrow> (c # f) # fs))"

text \<open>
  \<open>Number(s)\<close> on the strings the timestamp is made of: a string of decimal digits is its
  value, the empty string is 0, and \<open>None\<close> is \<open>NaN\<close>. Other numeral notations (sign,
  fraction, exponent, hexadecimal, surrounding white space) do not occur in a timestamp
  and are not modelled.
\<close>

definition digit_value :: "char \<Rightarrow> nat" where
  "digit_value c = (case indexOf ''0123456789'' c of Some d \<Rightarrow> d | None \<Rightarrow> 0)"

definition parse_digits :: "string \<Rightarrow> nat" where
  "parse_digits s = foldl (\<lambda>acc c. 10 * acc + digit_value c) 0 s"

definition js_Number :: "string \<Rightarrow> int option" where
  "js_Number s = (if list_all is_digit s then Some (int (parse_digits s)) else None)"

text \<open>
  The local calendar of \<open>Date\<close>, without daylight-saving transitions: a date is a year, a
  month (0 to 11) and a day of the month, or \<open>Invalid Date\<close>.
\<close>

datatype js_date = InvalidDate | LocalDate int int int

definition leap_year :: "int \<Rightarrow> bool" where
  "leap_year y = ((y mod 4 = 0 \<and> y mod 100 \<noteq> 0) \<or> y mod 400 = 0)"

definition days_in_month :: "int \<Rightarrow> int \<Rightarrow> int" where
  "days_in_month y m =
     (if m = 1 then (if leap_year y then 29 else 28)
      else if m = 3 \<or> m = 5 \<or> m = 8 \<or> m = 10 then 30 else 31)"

definition prev_month :: "int \<Rightarrow> int \<Rightarrow> int \<times> int" where
  "prev_month y m = (if m = 0 then (y - 1, 11) else (y, m - 1))"

definition next_month :: "int \<Rightarrow> int \<Rightarrow> int \<times> int" where
  "next_month y m = (if m = 11 then (y + 1, 0) else (y, m + 1))"

text \<open>
  The date \<open>k\<close> days after the first of month \<open>m\<close> of year \<open>y\<close>; \<open>k\<close> may be negative
  or run past the end of the month, as the arguments of \<open>new Date(y, m, d)\<close> and
  \<open>setDate(d)\<close> may.
\<close>

function roll_days :: "int \<Rightarrow> int \<Rightarrow> int \<Rightarrow> js_date" where
  "roll_days y m k =
     (if k < 0 then
        roll_days (fst (prev_month y m)) (snd (prev_month y m))
          (k + days_in_month (fst (prev_month y m)) (snd (prev_month y m)))
      else if days_in_month y m \<le> k then
        roll_days (fst (next_month y m)) (snd (next_month y m)) (k - days_in_month y m)
      else LocalDate y m (k + 1))"
  by pat_completeness auto
termination
proof (relation "measure (\<lambda>(y, m, k).
          if k < 0 then nat (- k) + 1 else if days_in_month y m \<le> k then nat k + 1 else 0)")
  show "wf (measure (\<lambda>(y, m, k).
          if k < 0 then nat (- k) + 1 else if days_in_month y m \<le> k then nat k + 1 else 0))"
    by simp
next
  fix y m k :: int
  assume "k < 0"
  moreover have "28 \<le> days_in_month (fst (prev_month y m)) (snd (prev_month y m))"
    by (simp add: days_in_month_def)
  ultimately show "((fst (prev_month y m), snd (prev_month y m),
           k + days_in_month (fst (prev_month y m)) (snd (prev_month y m))), (y, m, k))
        \<in> measure (\<lambda>(y, m, k).
          if k < 0 then nat (- k) + 1 else if days_in_month y m \<le> k then nat k + 1 else 0)"
    by auto
next
  fix y m k :: int
  assume "\<not> k < 0" "days_in_month y m \<le> k"
  moreover have "28 \<le> days_in_month y m" by (simp add: days_in_month_def)
  ultimately show "((fst (next_month y m), snd (next_month y m), k - days_in_month y m), (y, m, k))
        \<in> measure (\<lambda>(y, m, k).
          if k < 0 then nat (- k) + 1 else if days_in_month y m \<le> k then nat k + 1 else 0)"
    by auto
qed

declare roll_days.simps [simp del]

text \<open>
  \<open>new Date(year, monthIndex, day)\<close>: a \<open>NaN\<close> argument gives \<open>Invalid Date\<close>, a year
  from 0 to 99 means 1900 + year, and month and day outside their ranges carry over.
\<close>

definition new_Date :: "int option \<Rightarrow> int option \<Rightarrow> int option \<Rightarrow> js_date" where
  "new_Date year monthIndex day =
     (case (year, monthIndex, day) of
        (Some y, Some m, Some d) \<Rightarrow>
          (let yr = (if 0 \<le> y \<and> y \<le> 99 then 1900 + y else y)
           in roll_days (yr + m div 12) (m mod 12) (d - 1))
      | _ \<Rightarrow> InvalidDate)"

definition getFullYear :: "js_date \<Rightarrow> int option" where
  "getFullYear dt = (case dt of InvalidDate \<Rightarrow> None | LocalDate y m d \<Rightarrow> Some y)"

definition getMonth :: "js_date \<Rightarrow> int option" where
  "getMonth dt = (case dt of InvalidDate \<Rightarrow> None | LocalDate y m d \<Rightarrow> Some m)"

definition getDate :: "js_date \<Rightarrow> int option" where
  "getDate dt = (case dt of InvalidDate \<Rightarrow> None | LocalDate y m d \<Rightarrow> Some d)"

definition setDate :: "js_date \<Rightarrow> int option \<Rightarrow> js_date" where
  "setDate dt n =
     (case (dt, n) of
        (LocalDate y m d, Some k) \<Rightarrow> roll_days y m (k - 1)
      | _ \<Rightarrow> InvalidDate)"

text \<open>\<open>String(x)\<close> and \<open>`${x}`\<close> of a number: \<open>NaN\<close> prints as \<open>NaN\<close>.\<close>

definition js_String :: "int option \<Rightarrow> string" where
  "js_String x = (case x of None \<Rightarrow> ''NaN'' | Some i \<Rightarrow> js_toString i)"

text \<open>Arithmetic and comparison with \<open>NaN\<close>: a sum with \<open>NaN\<close> is \<open>NaN\<close>, a comparison false.\<close>

definition js_plus :: "int option \<Rightarrow> int \<Rightarrow> int option" where
  "js_plus x k = map_option (\<lambda>i. i + k) x"

definition js_less :: "int option \<Rightarrow> int \<Rightarrow> bool" where
  "js_less x k = (case x of None \<Rightarrow> False | Some i \<Rightarrow> i < k)"

definition js_equals :: "int option \<Rightarrow> int \<Rightarrow> bool" where
  "js_equals x k = (x = Some k)"

text \<open>
  \<open>getInstrumentsRefreshCutoff()\<close>. \<open>xs[i] ?? 0\<close> on an index inside the array is
  \<open>xs[i]\<close>; the length checks before it guarantee indices 0 to 2 of the date parts and 0
  to 1 of the time parts.
\<close>

definition getInstrumentsRefreshCutoff :: "(int \<Rightarrow> utc_fields) \<Rightarrow> int \<Rightarrow> js_error + string" where
  "getInstrumentsRefreshCutoff date_utc now_ms =
     (let currentIST = getISTTimestamp date_utc now_ms;
          parts = js_split (CHR '' '') currentIST
      in if length parts \<noteq> 2 \<or> parts ! 0 = [] \<or> parts ! 1 = []
         then Inl (Error ''Invalid timestamp format'')
         else
           (let datePart = parts ! 0;
                timePart = parts ! 1;
                dateParts = map js_Number (js_split (CHR ''-'') datePart);
                timeParts = map js_Number (js_split (CHR '':'') timePart)
            in if length dateParts \<noteq> 3 \<or> length timeParts < 2
               then Inl (Error ''Invalid timestamp format'')
               else
                 (let year = dateParts ! 0;
                      month = dateParts ! 1;
                      day = dateParts ! 2;
                      hours = timeParts ! 0;
                      minutes = timeParts ! 1;
                      cutoffDate0 = new_Date year (js_plus month (- 1)) day;
                      cutoffDate =
                        (if js_less hours 8 \<or> (js_equals hours 8 \<and> js_less minutes 30)
                         then setDate cutoffDate0 (js_plus (getDate cutoffDate0) (- 1))
                         else cutoffDate0);
                      cutoffYear = getFullYear cutoffDate;
                      cutoffMonth =
                        padStart 2 (CHR ''0'') (js_String (js_plus (getMonth cutoffDate) 1));
                      cutoffDay = padStart 2 (CHR ''0'') (js_String (getDate cutoffDate))
                  in Inr (js_String cutoffYear @ ''-'' @ cutoffMonth @ ''-'' @ cutoffDay
                          @ '' 08:30:00''))))"

text \<open>
  \<open>SELECT MAX(updated_at) as latest FROM kite_instruments\<close> on the column values of
  the table: \<open>NULL\<close> for an empty table, else the greatest text in byte order. The query
  may fail (\<open>query_fails\<close>), which throws.
\<close>

fun sql_max :: "string list \<Rightarrow> string option" where
  "sql_max [] = None"
| "sql_max (x # xs) = Some (foldl max x xs)"

definition select_max_updated_at :: "bool \<Rightarrow> string list \<Rightarrow> js_error + string option" where
  "select_max_updated_at query_fails updated_ats =
     (if query_fails then Inl (Error ''query failed'') else Inr (sql_max updated_ats))"

text \<open>\<open>getLatestUpdateTime()\<close>: \<open>result?.latest || null\<close>, and \<open>null\<close> on an error.\<close>

definition getLatestUpdateTime :: "bool \<Rightarrow> string list \<Rightarrow> string option" where
  "getLatestUpdateTime query_fails updated_ats =
     (case select_max_updated_at query_fails updated_ats of
        Inl e \<Rightarrow> None
      | Inr latest \<Rightarrow>
          (case latest of None \<Rightarrow> None | Some s \<Rightarrow> if s = [] then None else Some s))"

text \<open>
  \<open>isRefreshRequired()\<close>; \<open>updated_ats\<close> is the \<open>updated_at\<close> column of the
  instrument table. The comparison \<open>latestUpdate < cutoff\<close> of two strings is
  lexicographic.
\<close>

definition isRefreshRequired :: "(int \<Rightarrow> utc_fields) \<Rightarrow> int \<Rightarrow> bool \<Rightarrow> string list \<Rightarrow> bool" where
  "isRefreshRequired date_utc now_ms query_fails updated_ats =
     (case getInstrumentsRefreshCutoff date_utc now_ms of
        Inl e \<Rightarrow> True
      | Inr cutoff \<Rightarrow>
          (case getLatestUpdateTime query_fails updated_ats of
             None \<Rightarrow> True
           | Some latestUpdate \<Rightarrow> if latestUpdate < cutoff then True else False))"

text \<open>
  The cutoff in the words of the specification: 08:30:00 of today when the time of day
  is 08:30 or later, of yesterday before that. A day is a year, a month from 1 to 12
  and a day of the month.
\<close>

definition well_formed_fields :: "utc_fields \<Rightarrow> bool" where
  "well_formed_fields f =
     (1970 \<le> utcFullYear f \<and> utcMonth f < 12
      \<and> 1 \<le> utcDate f \<and> int (utcDate f) \<le> days_in_month (int (utcFullYear f)) (int (utcMonth f))
      \<and> utcHours f < 24 \<and> utcMinutes f < 60 \<and> utcSeconds f < 60)"

definition yesterday :: "nat \<times> nat \<times> nat \<Rightarrow> nat \<times> nat \<times> nat" where
  "yesterday ymd =
     (case ymd of (y, m, d) \<Rightarrow>
        if 1 < d then (y, m, d - 1)
        else if 1 < m then (y, m - 1, nat (days_in_month (int y) (int m - 2)))
        else (y - 1, 12, 31))"

definition date_string :: "nat \<times> nat \<times> nat \<Rightarrow> string" where
  "date_string ymd = (case ymd of (y, m, d) \<Rightarrow> toString10 y @ ''-'' @ pad2 m @ ''-'' @ pad2 d)"

definition before_0830 :: "utc_fields \<Rightarrow> bool" where
  "before_0830 f = (utcHours f < 8 \<or> (utcHours f = 8 \<and> utcMinutes f < 30))"

definition spec_cutoff :: "utc_fields \<Rightarrow> string" where
  "spec_cutoff f =
     (let today = (utcFullYear f, utcMonth f + 1, utcDate f)
      in date_string (if before_0830 f then yesterday today else today) @ '' 08:30:00'')"

text \<open>A clock standing at 2024-01-10 09:00:00 IST, to run the definitions.\<close>

definition demo_clock :: "int \<Rightarrow> utc_fields" where
  "demo_clock t = \<lparr>utcFullYear = 2024, utcMonth = 0, utcDate = 10, utcHours = 9,
                   utcMinutes = 0, utcSeconds = 0\<rparr>"

text \<open>A clock standing at 2024-03-01 08:29:59 IST, just before the cutoff after a leap day.\<close>

definition demo_clock_early :: "int \<Rightarrow> utc_fields" where
  "demo_clock_early t = \<lparr>utcFullYear = 2024, utcMonth = 2, utcDate = 1, utcHours = 8,
                   utcMinutes = 29, utcSeconds = 59\<rparr>"

section \<open>Instrument refresh (api/instruments/refresh.ts)\<close>

subsection \<open>CSV parsing\<close>

text \<open>\<open>value.replace(/^"|"$/g, "")\<close>: one quote at the start and one at the end go.\<close>

definition strip_quotes :: "string \<Rightarrow> string" where
  "strip_quotes s =
     (let s1 = (case s of c # cs \<Rightarrow> if c = CHR 0x22 then cs else s | [] \<Rightarrow> s)
      in if s1 \<noteq> [] \<and> last s1 = CHR 0x22 then butlast s1 else s1)"

text \<open>
  A row object \<open>Record<string, string>\<close> is an association list, latest assignment
  first, so that \<open>map_of\<close> reads what the last \<open>row[header] = ...\<close> wrote.
\<close>

type_synonym csv_row = "(string \<times> string) list"

text \<open>
  The inner loop over \<open>j\<close>: \<open>row[header] = value?.replace(...) || ""\<close>, where
  \<open>values[j]\<close> is \<open>undefined\<close> past the end of the line.
\<close>

fun row_loop :: "nat \<Rightarrow> string list \<Rightarrow> string list \<Rightarrow> csv_row \<Rightarrow> csv_row" where
  "row_loop j [] vals row = row"
| "row_loop j (header # headers) vals row =
     row_loop (Suc j) headers vals
       ((header, if j < length vals then strip_quotes (vals ! j) else []) # row)"

definition parseCSV :: "string \<Rightarrow> js_error + csv_row list" where
  "parseCSV csvText =
     (let lines = js_split (CHR 0x0A) (trim csvText)
      in if length lines < 2 then Inl (Error ''Invalid CSV format: no data rows'')
         else
           (let headers = js_split (CHR '','') (lines ! 0)
            in Inr (map (\<lambda>line. row_loop 0 headers (js_split (CHR '','') line) []) (tl lines))))"

subsection \<open>Database records\<close>

record db_record =
  instrument_token :: int
  exchange_token :: int
  tradingsymbol :: string
  name :: "string option"
  last_price :: rat
  expiry :: "string option"
  strike :: rat
  tick_size :: rat
  lot_size :: int
  instrument_type :: "string option"
  segment :: "string option"
  exchange :: string
  updated_at :: string

text \<open>
  \<open>row.k || d\<close> and \<open>row.k || null\<close>: a missing or empty field gives the default.
  \<open>parseInt\<close> and \<open>parseFloat\<close> are the runtime's and are parameters; \<open>None\<close> is
  \<open>NaN\<close>, which \<open>|| 0\<close> turns into 0. A finite float is a rational number.
\<close>

definition field_or :: "csv_row \<Rightarrow> string \<Rightarrow> string \<Rightarrow> string" where
  "field_or row k d = (case map_of row k of None \<Rightarrow> d | Some s \<Rightarrow> if s = [] then d else s)"

definition field_or_null :: "csv_row \<Rightarrow> string \<Rightarrow> string option" where
  "field_or_null row k =
     (case map_of row k of None \<Rightarrow> None | Some s \<Rightarrow> if s = [] then None else Some s)"

definition transformToDBRecord ::
  "(string \<Rightarrow> int option) \<Rightarrow> (string \<Rightarrow> rat option) \<Rightarrow> csv_row \<Rightarrow> string \<Rightarrow> db_record" where
  "transformToDBRecord parseInt parseFloat row updatedAt =
     \<lparr> instrument_token =
         (case parseInt (field_or row ''instrument_token'' ''0'') of None \<Rightarrow> 0 | Some n \<Rightarrow> n),
       exchange_token =
         (case parseInt (field_or row ''exchange_token'' ''0'') of None \<Rightarrow> 0 | Some n \<Rightarrow> n),
       tradingsymbol = field_or row ''tradingsymbol'' [],
       name = field_or_null row ''name'',
       last_price =
         (case parseFloat (field_or row ''last_price'' ''0'') of None \<Rightarrow> 0 | Some x \<Rightarrow> x),
       expiry =
         (case map_of row ''expiry'' of
            None \<Rightarrow> None
          | Some s \<Rightarrow> if s \<noteq> [] \<and> s \<noteq> ''0'' then Some s else None),
       strike = (case parseFloat (field_or row ''strike'' ''0'') of None \<Rightarrow> 0 | Some x \<Rightarrow> x),
       tick_size =
         (case parseFloat (field_or row ''tick_size'' ''0'') of None \<Rightarrow> 0 | Some x \<Rightarrow> x),
       lot_size = (case parseInt (field_or row ''lot_size'' ''0'') of None \<Rightarrow> 0 | Some n \<Rightarrow> n),
       instrument_type = field_or_null row ''instrument_type'',
       segment = field_or_null row ''segment'',
       exchange = field_or row ''exchange'' [],
       updated_at = updatedAt \<rparr>"

subsection \<open>The database connection\<close>

text \<open>
  The single SQLite connection as far as the refresh uses it: the rows of
  \<open>kite_instruments\<close> as the connection sees them, and, while a transaction is open,
  the rows as they were at \<open>BEGIN\<close>. \<open>ticks\<close> counts the readings of the clock.
\<close>

record world =
  table :: "db_record list"
  snapshot :: "db_record list option"
  ticks :: nat

text \<open>
  What is outside the program: the clock, the upstream response and the failures of the
  database statements. An \<open>INSERT\<close> may succeed, fail leaving the transaction open, or
  fail with an error on which SQLite rolls the transaction back by itself.
\<close>

datatype insert_outcome = InsertOk | InsertError string | InsertErrorRollback string

record fetch_response =
  resp_status :: nat
  resp_statusText :: string
  resp_body :: "string option"

datatype fetch_result = FetchThrows string | FetchResponse fetch_response

record refresh_env =
  env_clock :: "nat \<Rightarrow> int"
  env_date_utc :: "int \<Rightarrow> utc_fields"
  fetch_instruments :: fetch_result
  env_parseInt :: "string \<Rightarrow> int option"
  env_parseFloat :: "string \<Rightarrow> rat option"
  delete_fails :: "string option"
  prepare_fails :: "string option"
  begin_fails :: "string option"
  insert_result :: "nat \<Rightarrow> db_record \<Rightarrow> insert_outcome"
  commit_fails :: "string option"

definition response_ok :: "fetch_response \<Rightarrow> bool" where
  "response_ok r = (200 \<le> resp_status r \<and> resp_status r \<le> 299)"

text \<open>One reading of the clock through \<open>getISTTimestamp()\<close>.\<close>

definition read_ist_timestamp :: "refresh_env \<Rightarrow> world \<Rightarrow> string \<times> world" where
  "read_ist_timestamp env w =
     (getISTTimestamp (env_date_utc env) (env_clock env (ticks w)), w\<lparr>ticks := Suc (ticks w)\<rparr>)"

text \<open>
  The statements. A statement that fails changes nothing, except the insert error that
  rolls back. \<open>BEGIN\<close> inside a transaction, and \<open>COMMIT\<close> or \<open>ROLLBACK\<close> outside
  one, are errors of SQLite.
\<close>

definition rolled_back :: "world \<Rightarrow> world" where
  "rolled_back w =
     (case snapshot w of None \<Rightarrow> w | Some rows \<Rightarrow> w\<lparr>table := rows, snapshot := None\<rparr>)"

definition db_delete_all :: "refresh_env \<Rightarrow> world \<Rightarrow> (js_error + unit) \<times> world" where
  "db_delete_all env w =
     (case delete_fails env of
        Some msg \<Rightarrow> (Inl (Error msg), w)
      | None \<Rightarrow> (Inr (), w\<lparr>table := []\<rparr>))"

definition db_prepare_insert :: "refresh_env \<Rightarrow> world \<Rightarrow> (js_error + unit) \<times> world" where
  "db_prepare_insert env w =
     (case prepare_fails env of
        Some msg \<Rightarrow> (Inl (Error msg), w)
      | None \<Rightarrow> (Inr (), w))"

definition db_begin :: "refresh_env \<Rightarrow> world \<Rightarrow> (js_error + unit) \<times> world" where
  "db_begin env w =
     (case snapshot w of
        Some rows \<Rightarrow> (Inl (Error ''cannot start a transaction within a transaction''), w)
      | None \<Rightarrow>
          (case begin_fails env of
             Some msg \<Rightarrow> (Inl (Error msg), w)
           | None \<Rightarrow> (Inr (), w\<lparr>snapshot := Some (table w)\<rparr>)))"

definition db_insert :: "refresh_env \<Rightarrow> nat \<Rightarrow> db_record \<Rightarrow> world \<Rightarrow> (js_error + unit) \<times> world" where
  "db_insert env i r w =
     (case insert_result env i r of
        InsertOk \<Rightarrow> (Inr (), w\<lparr>table := table w @ [r]\<rparr>)
      | InsertError msg \<Rightarrow> (Inl (Error msg), w)
      | InsertErrorRollback msg \<Rightarrow> (Inl (Error msg), rolled_back w))"

definition db_commit :: "refresh_env \<Rightarrow> world \<Rightarrow> (js_error + unit) \<times> world" where
  "db_commit env w =
     (case snapshot w of
        None \<Rightarrow> (Inl (Error ''cannot commit - no transaction is active''), w)
      | Some rows \<Rightarrow>
          (case commit_fails env of
             Some msg \<Rightarrow> (Inl (Error msg), w)
           | None \<Rightarrow> (Inr (), w\<lparr>snapshot := None\<rparr>)))"

definition db_rollback :: "world \<Rightarrow> (js_error + unit) \<times> world" where
  "db_rollback w =
     (case snapshot w of
        None \<Rightarrow> (Inl (Error ''cannot rollback - no transaction is active''), w)
      | Some rows \<Rightarrow> (Inr (), rolled_back w))"

subsection \<open>performInstrumentsRefresh\<close>

record refresh_result =
  success :: bool
  count :: nat
  error :: "string option"

definition refresh_failed :: "string \<Rightarrow> refresh_result" where
  "refresh_failed msg = \<lparr>success = False, count = 0, error = Some msg\<rparr>"

text \<open>
  The loop \<open>for (const record of dbRecords)\<close>: \<open>insertedCount\<close> is the number of the
  next record; a failing insert ends the loop with the exception.
\<close>

fun insert_loop :: "refresh_env \<Rightarrow> nat \<Rightarrow> db_record list \<Rightarrow> world \<Rightarrow> (js_error + nat) \<times> world" where
  "insert_loop env insertedCount [] w = (Inr insertedCount, w)"
| "insert_loop env insertedCount (r # rs) w =
     (case db_insert env insertedCount r w of
        (Inl e, w') \<Rightarrow> (Inl e, w')
      | (Inr u, w') \<Rightarrow> insert_loop env (Suc insertedCount) rs w')"

text \<open>The body of the inner \<open>try\<close>: \<open>BEGIN TRANSACTION\<close>, the inserts, \<open>COMMIT\<close>.\<close>

definition insert_transaction ::
  "refresh_env \<Rightarrow> db_record list \<Rightarrow> world \<Rightarrow> (js_error + nat) \<times> world" where
  "insert_transaction env dbRecords w =
     (case db_begin env w of
        (Inl e, w1) \<Rightarrow> (Inl e, w1)
      | (Inr u, w1) \<Rightarrow>
          (case insert_loop env 0 dbRecords w1 of
             (Inl e, w2) \<Rightarrow> (Inl e, w2)
           | (Inr insertedCount, w2) \<Rightarrow>
               (case db_commit env w2 of
                  (Inl e, w3) \<Rightarrow> (Inl e, w3)
                | (Inr u, w3) \<Rightarrow> (Inr insertedCount, w3))))"

text \<open>
  \<open>performInstrumentsRefresh()\<close>. An exception outside the two inner \<open>try\<close> blocks,
  also one thrown by \<open>ROLLBACK\<close> in the inner \<open>catch\<close>, reaches the outer \<open>catch\<close>,
  which returns its message.
\<close>

definition performInstrumentsRefresh :: "refresh_env \<Rightarrow> world \<Rightarrow> refresh_result \<times> world" where
  "performInstrumentsRefresh env w =
     (case fetch_instruments env of
        FetchThrows msg \<Rightarrow> (refresh_failed msg, w)
      | FetchResponse response \<Rightarrow>
          if \<not> response_ok response
          then (refresh_failed (''Failed to fetch instruments: '' @ resp_statusText response), w)
          else
            (case resp_body response of
               None \<Rightarrow> (refresh_failed ''Unknown error'', w)
             | Some csvText \<Rightarrow>
                 (case parseCSV csvText of
                    Inl (Error msg) \<Rightarrow> (refresh_failed msg, w)
                  | Inr csvData \<Rightarrow>
                      (let (istTimestamp, w0) = read_ist_timestamp env w;
                           dbRecords =
                             map (\<lambda>row. transformToDBRecord (env_parseInt env) (env_parseFloat env)
                                          row istTimestamp) csvData
                       in case db_delete_all env w0 of
                            (Inl (Error msg), w1) \<Rightarrow>
                              (refresh_failed (''Failed to truncate table: '' @ msg), w1)
                          | (Inr u, w1) \<Rightarrow>
                              (case db_prepare_insert env w1 of
                                 (Inl (Error msg), w2) \<Rightarrow> (refresh_failed msg, w2)
                               | (Inr u, w2) \<Rightarrow>
                                   (case insert_transaction env dbRecords w2 of
                                      (Inl (Error msg), w3) \<Rightarrow>
                                        (case db_rollback w3 of
                                           (Inl (Error msg'), w4) \<Rightarrow> (refresh_failed msg', w4)
                                         | (Inr u, w4) \<Rightarrow>
                                             (refresh_failed (''Failed to insert data: '' @ msg),
                                              w4))
                                    | (Inr insertedCount, w3) \<Rightarrow>
                                        (\<lparr>success = True, count = insertedCount, error = None\<rparr>,
                                         w3)))))))"

text \<open>A feed of two data rows and an environment in which nothing fails, to run the model.\<close>

definition demo_feed :: string where
  "demo_feed = ''instrument_token,tradingsymbol,exchange'' @ [CHR 0x0A]
     @ ''256265,NIFTY 50,NSE'' @ [CHR 0x0A] @ ''260105,NIFTY BANK,NSE'' @ [CHR 0x0A]"

definition demo_env :: refresh_env where
  "demo_env =
     \<lparr> env_clock = (\<lambda>k. 0), env_date_utc = demo_clock,
       fetch_instruments =
         FetchResponse \<lparr>resp_status = 200, resp_statusText = ''OK'', resp_body = Some demo_feed\<rparr>,
       env_parseInt = (\<lambda>s. map_option int (if list_all is_digit s \<and> s \<noteq> [] then Some (parse_digits s) else None)),
       env_parseFloat = (\<lambda>s. None),
       delete_fails = None, prepare_fails = None, begin_fails = None,
       insert_result = (\<lambda>i r. InsertOk), commit_fails = None \<rparr>"

definition demo_old_row :: db_record where
  "demo_old_row =
     \<lparr> instrument_token = 1, exchange_token = 1, tradingsymbol = ''OLD'', name = None,
       last_price = 0, expiry = None, strike = 0, tick_size = 0, lot_size = 0,
       instrument_type = None, segment = None, exchange = ''NSE'',
       updated_at = ''2024-01-09 08:31:00'' \<rparr>"

definition demo_world :: world where
  "demo_world = \<lparr>table = [demo_old_row], snapshot = None, ticks = 0\<rparr>"

text \<open>
  The data rows of a feed in the words of the specification: the lines after the header
  row, the feed taken without the white space around it.
\<close>

definition feed_data_lines :: "string \<Rightarrow> string list" where
  "feed_data_lines csvText = tl (js_split (CHR 0x0A) (trim csvText))"

text \<open>The same environment, except that the second insert fails.\<close>

definition demo_env_insert_fails :: refresh_env where
  "demo_env_insert_fails =
     demo_env\<lparr>insert_result := (\<lambda>i r. if i = 1 then InsertError ''disk full'' else InsertOk)\<rparr>"

text \<open>
  After a failure inside the transaction begun on \<open>rows\<close>: the transaction is still
  open, or SQLite has rolled it back already.
\<close>

definition open_or_rolled_back :: "db_record list \<Rightarrow> world \<Rightarrow> bool" where
  "open_or_rolled_back rows w =
     (snapshot w = Some rows \<or> (snapshot w = None \<and> table w = rows))"

section \<open>Session drivers (api/user/sessionOMS.ts, sessionAPI.ts, session.ts)\<close>

subsection \<open>JSON values, requests and responses\<close>

text \<open>
  A value read from a JSON body, or \<open>undefined\<close>. \<open>JSON.parse\<close> and \<open>JSON.stringify\<close>
  are the runtime's and are parameters of the environment.
\<close>

datatype json =
  JUndefined | JNull | JBool bool | JNum int | JStr string | JArr "json list"
  | JObj "(string \<times> json) list"

text \<open>
  \<open>v.k\<close>: a \<open>TypeError\<close> (\<open>None\<close>) on \<open>null\<close> and \<open>undefined\<close>, the member of an
  object, and \<open>undefined\<close> for a missing member or a value without members.
\<close>

definition js_prop :: "json \<Rightarrow> string \<Rightarrow> json option" where
  "js_prop v k =
     (case v of
        JUndefined \<Rightarrow> None
      | JNull \<Rightarrow> None
      | JObj kvs \<Rightarrow> Some (case map_of kvs k of None \<Rightarrow> JUndefined | Some x \<Rightarrow> x)
      | _ \<Rightarrow> Some JUndefined)"

definition js_truthy :: "json \<Rightarrow> bool" where
  "js_truthy v =
     (case v of
        JUndefined \<Rightarrow> False
      | JNull \<Rightarrow> False
      | JBool b \<Rightarrow> b
      | JNum n \<Rightarrow> n \<noteq> 0
      | JStr s \<Rightarrow> s \<noteq> []
      | _ \<Rightarrow> True)"

text \<open>
  The requests the drivers send, one constructor for each \<open>fetch\<close> of the sources with
  the values that go into its URL, headers and form: the login and 2FA posts, the
  no-follow GETs to \<open>/connect/login\<close> and \<open>/connect/finish\<close>, the token exchange, and
  the profile GET with \<open>Authorization: enctoken ...\<close>. A form value is recorded before
  its conversion to text.
\<close>

datatype net_call =
  LoginPost string string
  | TwofaPost json json string json string
  | ConnectGet string string
  | FinishGet string string string
  | TokenPost string string string
  | ProfileGet "string option"

record http_response =
  hr_status :: nat
  hr_set_cookie :: "string option"
  hr_location :: "string option"
  hr_text :: "js_error + string"
  hr_json :: "js_error + json"

datatype http_outcome = NetworkError string | Response http_response

definition http_ok :: "http_response \<Rightarrow> bool" where
  "http_ok r = (200 \<le> hr_status r \<and> hr_status r \<le> 299)"

text \<open>
  \<open>new URL(location, base).searchParams.get(name)\<close>: the URL may be invalid, which
  throws, or lack the parameter.
\<close>

datatype url_param = UrlInvalid | ParamAbsent | ParamValue string

subsection \<open>Session records and the world of a login\<close>

record session_row =
  sr_user_id :: json
  sr_enctoken :: "string option"
  sr_api_key :: json
  sr_access_token :: json
  sr_kite_session :: string
  sr_login_type :: string
  sr_login_time :: string
  sr_created_at :: string
  sr_updated_at :: string

record user_row =
  ur_user_id :: string
  ur_password_hash :: string
  ur_totp_secret :: string

text \<open>
  The state a login changes: the requests sent so far, the number of clock readings,
  and the rows of \<open>kite_sessions\<close> in insertion order. \<open>kite_users\<close> is only read.
\<close>

record login_world =
  lw_trace :: "net_call list"
  lw_ticks :: nat
  lw_sessions :: "session_row list"

text \<open>
  What is outside the program: the clock and calendar, the cryptographic primitives, the
  JSON and URL functions of the runtime, the message of the \<open>TypeError\<close> for reading a
  member of \<open>null\<close> or \<open>undefined\<close>, the answers of the broker (which may depend on
  the requests so far), the failures of the database statements (that of an insert may
  depend on the row), and the choice SQL leaves open among equally recent rows.
\<close>

record login_env =
  le_clock :: "nat \<Rightarrow> int"
  le_date_utc :: "int \<Rightarrow> utc_fields"
  le_toISOString :: "int \<Rightarrow> string"
  le_reformat_date :: "string \<Rightarrow> string option"
  le_crypto :: subtle_crypto
  le_sha256_hex :: "string \<Rightarrow> string"
  le_password_verify :: "string \<Rightarrow> string \<Rightarrow> js_error + bool"
  le_json_parse :: "string \<Rightarrow> js_error + json"
  le_json_stringify :: "json \<Rightarrow> string"
  le_type_error :: "json \<Rightarrow> string \<Rightarrow> string"
  le_url_param :: "string \<Rightarrow> bool \<Rightarrow> string \<Rightarrow> url_param"
  le_respond :: "net_call list \<Rightarrow> net_call \<Rightarrow> http_outcome"
  le_users :: "user_row list"
  le_select_user_fails :: "string option"
  le_select_session_fails :: bool
  le_insert_session_fails :: "session_row \<Rightarrow> bool"
  le_tie_break :: "session_row list \<Rightarrow> nat"

text \<open>\<open>await fetch(...)\<close>: the request joins the trace, the broker answers.\<close>

definition fetch :: "login_env \<Rightarrow> net_call \<Rightarrow> login_world \<Rightarrow> http_outcome \<times> login_world" where
  "fetch env call w = (le_respond env (lw_trace w) call, w\<lparr>lw_trace := lw_trace w @ [call]\<rparr>)"

definition read_clock :: "login_env \<Rightarrow> login_world \<Rightarrow> int \<times> login_world" where
  "read_clock env w = (le_clock env (lw_ticks w), w\<lparr>lw_ticks := Suc (lw_ticks w)\<rparr>)"

subsection \<open>The OMS driver\<close>

record oms_session =
  oms_user_id :: json
  oms_enctoken :: "string option"
  oms_kf_session :: "string option"
  oms_public_token :: "string option"
  oms_login_time :: string
  oms_raw_cookies :: string

datatype oms_result = OmsFailed string | OmsOk oms_session

text \<open>
  \<open>parseCookie(cookieString, name)\<close>: the first place where \<open>name=\<close> is followed by
  a character other than \<open>;\<close>, and the run of such characters from there.
\<close>

fun parseCookie :: "string \<Rightarrow> string \<Rightarrow> string option" where
  "parseCookie [] nm = None"
| "parseCookie (c # cs) nm =
     (let pat = nm @ ''='';
          rest = drop (length pat) (c # cs)
      in if take (length pat) (c # cs) = pat \<and> rest \<noteq> [] \<and> hd rest \<noteq> CHR '';''
         then Some (takeWhile (\<lambda>x. x \<noteq> CHR '';'') rest)
         else parseCookie cs nm)"

text \<open>
  \<open>generateOMSSession(userId, password, totpSecret)\<close>. Every exception inside it is
  caught by its \<open>catch\<close>, which returns the message.
\<close>

definition oms_after_twofa ::
  "login_env \<Rightarrow> json \<Rightarrow> string \<Rightarrow> http_response \<Rightarrow> login_world \<Rightarrow> oms_result \<times> login_world" where
  "oms_after_twofa env user_id loginCookies twofaResponse w =
     (if \<not> http_ok twofaResponse then
        (case hr_text twofaResponse of
           Inl (Error m) \<Rightarrow> (OmsFailed m, w)
         | Inr errorData \<Rightarrow>
             (OmsFailed (''2FA failed ['' @ toString10 (hr_status twofaResponse) @ '']: ''
                         @ errorData), w))
      else
        (case hr_json twofaResponse of
           Inl (Error m) \<Rightarrow> (OmsFailed m, w)
         | Inr twofaData \<Rightarrow>
             (case js_prop twofaData ''status'' of
                None \<Rightarrow> (OmsFailed (le_type_error env twofaData ''status''), w)
              | Some st \<Rightarrow>
                  if st \<noteq> JStr ''success''
                  then (OmsFailed (le_json_stringify env twofaData), w)
                  else
                    (let twofaCookies = (case hr_set_cookie twofaResponse of
                                           None \<Rightarrow> [] | Some c \<Rightarrow> c);
                         rawCookies = allCookies loginCookies twofaCookies;
                         kf_session = parseCookie loginCookies ''kf_session'';
                         enctoken = parseCookie twofaCookies ''enctoken'';
                         public_token = parseCookie twofaCookies ''public_token'';
                         (now, w') = read_clock env w;
                         login_time = getISTTimestamp (le_date_utc env) now
                     in (OmsOk \<lparr>oms_user_id = user_id, oms_enctoken = enctoken,
                                 oms_kf_session = kf_session, oms_public_token = public_token,
                                 oms_login_time = login_time, oms_raw_cookies = rawCookies\<rparr>,
                         w')))))"

definition oms_after_login ::
  "login_env \<Rightarrow> string \<Rightarrow> http_response \<Rightarrow> login_world \<Rightarrow> oms_result \<times> login_world" where
  "oms_after_login env totpSecret loginResponse w =
     (if \<not> http_ok loginResponse then
        (case hr_text loginResponse of
           Inl (Error m) \<Rightarrow> (OmsFailed m, w)
         | Inr errorData \<Rightarrow>
             (OmsFailed (''Login failed ['' @ toString10 (hr_status loginResponse) @ '']: ''
                         @ errorData), w))
      else
        (let loginCookies = (case hr_set_cookie loginResponse of None \<Rightarrow> [] | Some c \<Rightarrow> c)
         in case hr_json loginResponse of
              Inl (Error m) \<Rightarrow> (OmsFailed m, w)
            | Inr loginData \<Rightarrow>
                (case js_prop loginData ''status'' of
                   None \<Rightarrow> (OmsFailed (le_type_error env loginData ''status''), w)
                 | Some st \<Rightarrow>
                     if st \<noteq> JStr ''success''
                     then (OmsFailed (le_json_stringify env loginData), w)
                     else
                       (case js_prop loginData ''data'' of
                          None \<Rightarrow> (OmsFailed (le_type_error env loginData ''data''), w)
                        | Some d \<Rightarrow>
                            (case (js_prop d ''user_id'', js_prop d ''request_id'',
                                   js_prop d ''twofa_type'') of
                               (Some user_id, Some request_id, Some twofa_type) \<Rightarrow>
                                 (let (now, w1) = read_clock env w
                                  in case generateTotpValue (le_crypto env) now totpSecret 30 of
                                       Inl (Error m) \<Rightarrow> (OmsFailed m, w1)
                                     | Inr twofaValue \<Rightarrow>
                                         (let loginCookieHeader =
                                                convertSetCookieToCookie loginCookies;
                                              (r2, w2) =
                                                fetch env
                                                  (TwofaPost user_id request_id twofaValue
                                                     twofa_type loginCookieHeader) w1
                                          in case r2 of
                                               NetworkError m \<Rightarrow> (OmsFailed m, w2)
                                             | Response twofaResponse \<Rightarrow>
                                                 oms_after_twofa env user_id loginCookies
                                                   twofaResponse w2))
                             | _ \<Rightarrow> (OmsFailed (le_type_error env d ''user_id''), w))))))"

definition generateOMSSession ::
  "login_env \<Rightarrow> string \<Rightarrow> string \<Rightarrow> string \<Rightarrow> login_world \<Rightarrow> oms_result \<times> login_world" where
  "generateOMSSession env userId password totpSecret w =
     (let (r1, w1) = fetch env (LoginPost userId password) w
      in case r1 of
           NetworkError m \<Rightarrow> (OmsFailed m, w1)
         | Response loginResponse \<Rightarrow> oms_after_login env totpSecret loginResponse w1)"

subsection \<open>The API driver\<close>

text \<open>
  \<open>getSessionID(apiKey, cookies)\<close>: \<open>null\<close> (\<open>None\<close>) unless the answer is a 302 whose
  \<open>Location\<close> carries a non-empty \<open>sess_id\<close>. Reading the body of another answer is
  no new request.
\<close>

definition getSessionID ::
  "login_env \<Rightarrow> string \<Rightarrow> string \<Rightarrow> login_world \<Rightarrow> string option \<times> login_world" where
  "getSessionID env apiKey cookies w =
     (let (r, w') = fetch env (ConnectGet apiKey cookies) w
      in case r of
           NetworkError m \<Rightarrow> (None, w')
         | Response response \<Rightarrow>
             if hr_status response \<noteq> 302 then (None, w')
             else
               (case hr_location response of
                  None \<Rightarrow> (None, w')
                | Some location \<Rightarrow>
                    if location = [] then (None, w')
                    else
                      (case le_url_param env location True ''sess_id'' of
                         ParamValue sessId \<Rightarrow> (if sessId = [] then None else Some sessId, w')
                       | _ \<Rightarrow> (None, w'))))"

definition getRequestToken ::
  "login_env \<Rightarrow> string \<Rightarrow> string \<Rightarrow> string \<Rightarrow> login_world \<Rightarrow> string option \<times> login_world" where
  "getRequestToken env apiKey sessId cookies w =
     (let (r, w') = fetch env (FinishGet apiKey sessId cookies) w
      in case r of
           NetworkError m \<Rightarrow> (None, w')
         | Response response \<Rightarrow>
             if hr_status response \<noteq> 302 then (None, w')
             else
               (case hr_location response of
                  None \<Rightarrow> (None, w')
                | Some location \<Rightarrow>
                    if location = [] then (None, w')
                    else
                      (case le_url_param env location False ''request_token'' of
                         ParamValue requestToken \<Rightarrow>
                           (if requestToken = [] then None else Some requestToken, w')
                       | _ \<Rightarrow> (None, w'))))"

definition generateChecksum :: "login_env \<Rightarrow> string \<Rightarrow> string \<Rightarrow> string \<Rightarrow> string" where
  "generateChecksum env apiKey requestToken apiSecret =
     le_sha256_hex env (apiKey @ requestToken @ apiSecret)"

text \<open>\<open>generateSessionToken\<close>: \<open>jsonData.data\<close> of a 200 answer, \<open>null\<close> otherwise.\<close>

definition generateSessionToken ::
  "login_env \<Rightarrow> string \<Rightarrow> string \<Rightarrow> string \<Rightarrow> login_world \<Rightarrow> json \<times> login_world" where
  "generateSessionToken env apiKey requestToken checksum w =
     (let (r, w') = fetch env (TokenPost apiKey requestToken checksum) w
      in case r of
           NetworkError m \<Rightarrow> (JNull, w')
         | Response response \<Rightarrow>
             if hr_status response \<noteq> 200 then (JNull, w')
             else
               (case hr_json response of
                  Inl e \<Rightarrow> (JNull, w')
                | Inr jsonData \<Rightarrow>
                    (case js_prop jsonData ''data'' of
                       None \<Rightarrow> (JNull, w')
                     | Some d \<Rightarrow> (d, w'))))"

datatype session_result =
  SessionFailed string
  | OmsSession oms_session
  | ApiSession oms_session json

definition generateAPISession ::
  "login_env \<Rightarrow> string \<Rightarrow> string \<Rightarrow> string \<Rightarrow> string \<Rightarrow> string \<Rightarrow> login_world
   \<Rightarrow> session_result \<times> login_world" where
  "generateAPISession env userId password totpSecret apiKey apiSecret w =
     (case generateOMSSession env userId password totpSecret w of
        (OmsFailed err, w1) \<Rightarrow>
          (SessionFailed (if err = [] then ''Failed to generate OMS session'' else err), w1)
      | (OmsOk omsResult, w1) \<Rightarrow>
          (let cookies = (if oms_raw_cookies omsResult = [] then []
                          else convertSetCookieToCookie (oms_raw_cookies omsResult))
           in case getSessionID env apiKey cookies w1 of
                (None, w2) \<Rightarrow> (SessionFailed ''Failed to get session ID'', w2)
              | (Some sessId, w2) \<Rightarrow>
                  (case getRequestToken env apiKey sessId cookies w2 of
                     (None, w3) \<Rightarrow> (SessionFailed ''Failed to get request token'', w3)
                   | (Some requestToken, w3) \<Rightarrow>
                       (let checksum = generateChecksum env apiKey requestToken apiSecret
                        in case generateSessionToken env apiKey requestToken checksum w3 of
                             (sessionTokenData, w4) \<Rightarrow>
                               if \<not> js_truthy sessionTokenData
                               then (SessionFailed ''Failed to generate session token'', w4)
                               else (ApiSession omsResult sessionTokenData, w4)))))"

text \<open>
  \<open>generateSession\<close>: the API driver when both \<open>apiKey\<close> and \<open>apiSecret\<close> are given
  and non-empty, the OMS driver otherwise.
\<close>

definition generateSession ::
  "login_env \<Rightarrow> string \<Rightarrow> string \<Rightarrow> string \<Rightarrow> string option \<Rightarrow> string option \<Rightarrow> login_world
   \<Rightarrow> session_result \<times> login_world" where
  "generateSession env userId password totpSecret apiKey apiSecret w =
     (case (apiKey, apiSecret) of
        (Some k, Some s) \<Rightarrow>
          if k \<noteq> [] \<and> s \<noteq> []
          then generateAPISession env userId password totpSecret k s w
          else (case generateOMSSession env userId password totpSecret w of
                  (OmsFailed err, w') \<Rightarrow> (SessionFailed err, w')
                | (OmsOk oms, w') \<Rightarrow> (OmsSession oms, w'))
      | _ \<Rightarrow>
          (case generateOMSSession env userId password totpSecret w of
             (OmsFailed err, w') \<Rightarrow> (SessionFailed err, w')
           | (OmsOk oms, w') \<Rightarrow> (OmsSession oms, w')))"

section \<open>Login handler (api/user/login.ts, api/_shared/responses.ts)\<close>

datatype ErrorType =
  InputException | AuthenticationException | DatabaseException | ValidationException
  | NotFoundException | InternalException | MethodNotAllowed

text \<open>
  A \<open>Response\<close>: its status code and its JSON body, \<open>{status: "success", data}\<close> or
  \<open>{status: "error", error_type, message}\<close>.
\<close>

datatype reply_body = SuccessBody json | ErrorBody ErrorType string

record http_reply =
  rp_status :: nat
  rp_body :: reply_body

definition successResponse :: "json \<Rightarrow> http_reply" where
  "successResponse d = \<lparr>rp_status = 200, rp_body = SuccessBody d\<rparr>"

definition errorResponse :: "ErrorType \<Rightarrow> string \<Rightarrow> nat \<Rightarrow> http_reply" where
  "errorResponse error_type message statusCode =
     \<lparr>rp_status = statusCode, rp_body = ErrorBody error_type message\<rparr>"

definition inputError :: "string \<Rightarrow> http_reply" where
  "inputError message = errorResponse InputException message 400"

definition authError :: "string \<Rightarrow> http_reply" where
  "authError message = errorResponse AuthenticationException message 401"

definition dbError :: "string \<Rightarrow> http_reply" where
  "dbError message = errorResponse DatabaseException message 500"

text \<open>
  The request as \<open>handleLogin\<close> reads it: the method, the \<open>content-type\<close> header, and
  the form, whose parsing may throw. \<open>formData.get(k)?.toString()\<close> is the first value
  of field \<open>k\<close>.
\<close>

record login_request =
  rq_method :: string
  rq_content_type :: "string option"
  rq_form :: "js_error + (string \<times> string) list"

text \<open>\<open>s.includes(t)\<close>.\<close>

definition js_includes :: "string \<Rightarrow> string \<Rightarrow> bool" where
  "js_includes s t = list_ex (\<lambda>i. take (length t) (drop i s) = t) [0 ..< Suc (length s)]"

text \<open>
  \<open>SELECT ... FROM kite_sessions WHERE user_id = ? ORDER BY created_at DESC LIMIT 1\<close>:
  among the rows of the user, one with the greatest \<open>created_at\<close> (text, compared
  byte by byte). SQL leaves the choice among rows with the same greatest \<open>created_at\<close>
  open: \<open>le_tie_break\<close> of the environment picks one of them.
\<close>

definition latest_sessions :: "string \<Rightarrow> session_row list \<Rightarrow> session_row list" where
  "latest_sessions user_id rows =
     (let mine = filter (\<lambda>r. sr_user_id r = JStr user_id) rows
      in filter (\<lambda>r. list_all (\<lambda>r'. sr_created_at r' \<le> sr_created_at r) mine) mine)"

definition select_latest_session ::
  "login_env \<Rightarrow> string \<Rightarrow> session_row list \<Rightarrow> session_row option" where
  "select_latest_session env user_id rows =
     (let latest = latest_sessions user_id rows
      in if latest = [] then None
         else Some (latest ! (le_tie_break env latest mod length latest)))"

text \<open>\<open>isEnctokenValid(enctoken)\<close>: the profile probe answers 200; a failure is \<open>false\<close>.\<close>

definition isEnctokenValid :: "login_env \<Rightarrow> string \<Rightarrow> login_world \<Rightarrow> bool \<times> login_world" where
  "isEnctokenValid env enctoken w =
     (let (r, w') = fetch env (ProfileGet (Some enctoken)) w
      in case r of
           NetworkError m \<Rightarrow> (False, w')
         | Response response \<Rightarrow> (hr_status response = 200, w'))"

text \<open>\<open>getUserProfile(enctoken)\<close>: \<open>profileData.data\<close> of an ok answer, else \<open>null\<close>.\<close>

definition getUserProfile ::
  "login_env \<Rightarrow> string option \<Rightarrow> login_world \<Rightarrow> json \<times> login_world" where
  "getUserProfile env enctoken w =
     (let (r, w') = fetch env (ProfileGet enctoken) w
      in case r of
           NetworkError m \<Rightarrow> (JNull, w')
         | Response response \<Rightarrow>
             if \<not> http_ok response then (JNull, w')
             else
               (case hr_json response of
                  Inl e \<Rightarrow> (JNull, w')
                | Inr profileData \<Rightarrow>
                    (case js_prop profileData ''data'' of
                       None \<Rightarrow> (JNull, w')
                     | Some d \<Rightarrow> (d, w'))))"

definition js_member :: "json \<Rightarrow> string \<Rightarrow> json" where
  "js_member v k = (case js_prop v k of None \<Rightarrow> JUndefined | Some x \<Rightarrow> x)"

definition json_of_string_option :: "string option \<Rightarrow> json" where
  "json_of_string_option s = (case s of None \<Rightarrow> JUndefined | Some t \<Rightarrow> JStr t)"

text \<open>\<open>x || null\<close> for an optional string.\<close>

definition or_null :: "string option \<Rightarrow> string option" where
  "or_null s = (case s of None \<Rightarrow> None | Some t \<Rightarrow> if t = [] then None else Some t)"

text \<open>
  The \<open>INSERT INTO kite_sessions\<close> inside its \<open>try\<close>: a failure is logged and the row is
  not added.
\<close>

definition insert_session :: "login_env \<Rightarrow> session_row \<Rightarrow> login_world \<Rightarrow> login_world" where
  "insert_session env row w =
     (if le_insert_session_fails env row then w else w\<lparr>lw_sessions := lw_sessions w @ [row]\<rparr>)"

text \<open>The part of \<open>handleLogin\<close> after a successful API session: save, then answer.\<close>

definition save_api_session ::
  "login_env \<Rightarrow> oms_session \<Rightarrow> json \<Rightarrow> login_world \<Rightarrow> http_reply \<times> login_world" where
  "save_api_session env oms apiSession w =
     (let (t1, w1) = read_clock env w;
          timestamp = getISTTimestamp (le_date_utc env) t1;
          (t2, w2) = read_clock env w1;
          row = \<lparr>sr_user_id = js_member apiSession ''user_id'',
                 sr_enctoken = or_null (oms_enctoken oms),
                 sr_api_key = js_member apiSession ''api_key'',
                 sr_access_token = js_member apiSession ''access_token'',
                 sr_kite_session = le_json_stringify env apiSession,
                 sr_login_type = ''API'',
                 sr_login_time = le_toISOString env t2,
                 sr_created_at = timestamp, sr_updated_at = timestamp\<rparr>
      in (successResponse apiSession, insert_session env row w2))"

text \<open>
  The part after a successful OMS session: the profile, the merged answer, the save.
  \<open>new Date(login_time).toISOString()\<close> throws on a date the runtime cannot read, inside
  the \<open>try\<close> of the insert.
\<close>

definition save_oms_session ::
  "login_env \<Rightarrow> string \<Rightarrow> oms_session \<Rightarrow> login_world \<Rightarrow> http_reply \<times> login_world" where
  "save_oms_session env user_id omsSession w =
     (case getUserProfile env (oms_enctoken omsSession) w of
        (profile, w1) \<Rightarrow>
          if \<not> js_truthy profile then (authError ''Failed to get user profile'', w1)
          else
            (let omsResponse = JObj
                   [(''user_id'', oms_user_id omsSession),
                    (''user_type'', js_member profile ''user_type''),
                    (''email'', js_member profile ''email''),
                    (''user_name'', js_member profile ''user_name''),
                    (''user_shortname'', js_member profile ''user_shortname''),
                    (''broker'', js_member profile ''broker''),
                    (''exchanges'', js_member profile ''exchanges''),
                    (''products'', js_member profile ''products''),
                    (''order_types'', js_member profile ''order_types''),
                    (''avatar_url'', js_member profile ''avatar_url''),
                    (''enctoken'', json_of_string_option (oms_enctoken omsSession)),
                    (''kf_session'', json_of_string_option (oms_kf_session omsSession)),
                    (''public_token'', json_of_string_option (oms_public_token omsSession)),
                    (''login_time'', JStr (oms_login_time omsSession)),
                    (''meta'', js_member profile ''meta'')];
                 (t1, w2) = read_clock env w1;
                 timestamp = getISTTimestamp (le_date_utc env) t1;
                 (login_time_text, w3) =
                   (if oms_login_time omsSession = []
                    then (case read_clock env w2 of (t2, w') \<Rightarrow> (le_toISOString env t2, w'))
                    else (oms_login_time omsSession, w2))
             in case le_reformat_date env login_time_text of
                  None \<Rightarrow> (successResponse omsResponse, w3)
                | Some login_time \<Rightarrow>
                    (successResponse omsResponse,
                     insert_session env
                       \<lparr>sr_user_id = (if js_truthy (oms_user_id omsSession)
                                       then oms_user_id omsSession else JStr user_id),
                        sr_enctoken = or_null (oms_enctoken omsSession),
                        sr_api_key = JNull, sr_access_token = JNull,
                        sr_kite_session = le_json_stringify env omsResponse,
                        sr_login_type = ''OMS'',
                        sr_login_time = login_time,
                        sr_created_at = timestamp, sr_updated_at = timestamp\<rparr> w3)))"

text \<open>The part from \<open>generateSession\<close> on: a fresh login.\<close>

definition fresh_login ::
  "login_env \<Rightarrow> string \<Rightarrow> string \<Rightarrow> string \<Rightarrow> string option \<Rightarrow> string option \<Rightarrow> login_world
   \<Rightarrow> http_reply \<times> login_world" where
  "fresh_login env user_id password totp_secret api_key api_secret w =
     (case generateSession env user_id password totp_secret api_key api_secret w of
        (SessionFailed err, w1) \<Rightarrow>
          (authError (if err = [] then ''Failed to generate session'' else err), w1)
      | (ApiSession oms apiSession, w1) \<Rightarrow> save_api_session env oms apiSession w1
      | (OmsSession omsSession, w1) \<Rightarrow> save_oms_session env user_id omsSession w1)"

text \<open>
  The part after the credentials are verified: the lookup of the latest session, the
  probe of its token, and the cached answer or a fresh login. An exception of
  \<open>JSON.parse\<close> reaches the outer \<open>catch\<close>.
\<close>

definition session_or_login ::
  "login_env \<Rightarrow> string \<Rightarrow> string \<Rightarrow> string \<Rightarrow> string option \<Rightarrow> string option \<Rightarrow> login_world
   \<Rightarrow> http_reply \<times> login_world" where
  "session_or_login env user_id password totp_secret api_key api_secret w =
     (let existingSession =
            (if le_select_session_fails env then None
             else select_latest_session env user_id (lw_sessions w))
      in case existingSession of
           None \<Rightarrow> fresh_login env user_id password totp_secret api_key api_secret w
         | Some row \<Rightarrow>
             (case sr_enctoken row of
                None \<Rightarrow> fresh_login env user_id password totp_secret api_key api_secret w
              | Some enctoken \<Rightarrow>
                  if sr_kite_session row = [] \<or> enctoken = []
                  then fresh_login env user_id password totp_secret api_key api_secret w
                  else
                    (case isEnctokenValid env enctoken w of
                       (isValid, w1) \<Rightarrow>
                         if isValid then
                           (case le_json_parse env (sr_kite_session row) of
                              Inl (Error m) \<Rightarrow> (dbError m, w1)
                            | Inr sessionData \<Rightarrow> (successResponse sessionData, w1))
                         else
                           fresh_login env user_id password totp_secret api_key api_secret w1)))"

text \<open>\<open>handleLogin(req)\<close>.\<close>

definition handleLogin :: "login_env \<Rightarrow> login_request \<Rightarrow> login_world \<Rightarrow> http_reply \<times> login_world" where
  "handleLogin env req w =
     (if rq_method req \<noteq> ''POST'' then (inputError ''Method not allowed'', w)
      else if \<not> (case rq_content_type req of
                    None \<Rightarrow> False
                  | Some contentType \<Rightarrow> js_includes contentType ''application/x-www-form-urlencoded'')
      then (inputError ''Content-Type must be application/x-www-form-urlencoded'', w)
      else
        (case rq_form req of
           Inl (Error m) \<Rightarrow> (dbError m, w)
         | Inr formData \<Rightarrow>
             (let user_id = map_of formData ''user_id'';
                  password = map_of formData ''password'';
                  totp_secret = map_of formData ''totp_secret'';
                  api_key = map_of formData ''api_key'';
                  api_secret = map_of formData ''api_secret''
              in case or_null user_id of
                   None \<Rightarrow> (inputError ''user_id is required'', w)
                 | Some uid \<Rightarrow>
                (case or_null password of
                   None \<Rightarrow> (inputError ''password is required'', w)
                 | Some pw \<Rightarrow>
                (case or_null totp_secret of
                   None \<Rightarrow> (inputError ''totp_secret is required'', w)
                 | Some secret \<Rightarrow>
                   (case le_select_user_fails env of
                      Some m \<Rightarrow> (dbError m, w)
                    | None \<Rightarrow>
                        (case find (\<lambda>u. ur_user_id u = uid) (le_users env) of
                           None \<Rightarrow> (authError ''Invalid credentials'', w)
                         | Some userRecord \<Rightarrow>
                             (case le_password_verify env pw (ur_password_hash userRecord) of
                                Inl (Error m) \<Rightarrow> (dbError m, w)
                              | Inr isPasswordValid \<Rightarrow>
                                  if \<not> isPasswordValid
                                  then (authError ''Invalid credentials'', w)
                                  else if ur_totp_secret userRecord \<noteq> secret
                                  then (authError ''Invalid credentials'', w)
                                  else session_or_login env uid pw secret api_key api_secret
                                         w))))))))"






text \<open>
  How a later world stands to an earlier one, for the statements below: \<open>grows\<close> when
  the session table is the same and the trace of requests is extended, \<open>login_sent\<close>
  when moreover the extension starts with the login post. \<open>tokens_nonempty\<close> says that
  no row of the table holds an empty bearer token; the rows \<open>handleLogin\<close> writes hold
  \<open>enctoken || null\<close>.
\<close>

definition grows :: "login_world \<Rightarrow> login_world \<Rightarrow> bool" where
  "grows w w' = (lw_sessions w' = lw_sessions w \<and> (\<exists>rest. lw_trace w' = lw_trace w @ rest))"

definition login_sent :: "string \<Rightarrow> string \<Rightarrow> login_world \<Rightarrow> login_world \<Rightarrow> bool" where
  "login_sent uid pw w w' =
     (lw_sessions w' = lw_sessions w
      \<and> (\<exists>rest. lw_trace w' = lw_trace w @ LoginPost uid pw # rest))"

definition tokens_nonempty :: "session_row list \<Rightarrow> bool" where
  "tokens_nonempty rows = list_all (\<lambda>r. sr_enctoken r \<noteq> Some []) rows"
subsection \<open>A concrete account, request and broker\<close>

text \<open>
  One registered account, a well-formed login request for it, and answers of the
  broker, to run the handler: the broker accepts the login and the 2FA post, answers
  the profile probe with 200, and answers the connect request with the status given.
\<close>

definition demo_login_json :: json where
  "demo_login_json =
     JObj [(''status'', JStr ''success''),
           (''data'', JObj [(''user_id'', JStr ''AB1234''), (''request_id'', JStr ''req1''),
                            (''twofa_type'', JStr ''totp'')])]"

definition demo_response :: "nat \<Rightarrow> string \<Rightarrow> json \<Rightarrow> http_response" where
  "demo_response code txt js =
     \<lparr>hr_status = code, hr_set_cookie = Some ''kf_session=k1; Path=/, enctoken=e1; Path=/'',
      hr_location = None, hr_text = Inr txt, hr_json = Inr js\<rparr>"

definition demo_broker :: "nat \<Rightarrow> nat \<Rightarrow> nat \<Rightarrow> nat \<Rightarrow> net_call list \<Rightarrow> net_call \<Rightarrow> http_outcome" where
  "demo_broker login_code twofa_code probe_code connect_code history call =
     (case call of
        LoginPost u p \<Rightarrow> Response (demo_response login_code ''bad password'' demo_login_json)
      | TwofaPost u r v t c \<Rightarrow>
          Response (demo_response twofa_code ''bad totp'' (JObj [(''status'', JStr ''success'')]))
      | ProfileGet t \<Rightarrow> Response (demo_response probe_code ''{}'' (JObj []))
      | ConnectGet k c \<Rightarrow> Response (demo_response connect_code ''<html>'' JNull)
      | _ \<Rightarrow> NetworkError ''unreachable'')"

definition demo_login_env :: "nat \<Rightarrow> nat \<Rightarrow> nat \<Rightarrow> nat \<Rightarrow> login_env" where
  "demo_login_env login_code twofa_code probe_code connect_code =
     \<lparr> le_clock = (\<lambda>k. 59000), le_date_utc = demo_clock,
       le_toISOString = (\<lambda>t. ''2024-01-10T03:30:00.000Z''),
       le_reformat_date = (\<lambda>s. Some ''2024-01-10T03:30:00.000Z''),
       le_crypto = demo_crypto, le_sha256_hex = (\<lambda>s. ''00''),
       le_password_verify = (\<lambda>p h. Inr (h = ''hash:'' @ p)),
       le_json_parse = (\<lambda>s. Inr (JObj [(''cached'', JStr s)])),
       le_json_stringify = (\<lambda>j. ''{}''),
       le_type_error = (\<lambda>v k. ''TypeError''),
       le_url_param = (\<lambda>loc base k. ParamAbsent),
       le_respond = demo_broker login_code twofa_code probe_code connect_code,
       le_users = [\<lparr>ur_user_id = ''AB1234'', ur_password_hash = ''hash:pw'',
                    ur_totp_secret = ''GEZDGNBV''\<rparr>],
       le_select_user_fails = None, le_select_session_fails = False,
       le_insert_session_fails = (\<lambda>row. False),
       le_tie_break = (\<lambda>rows. 0) \<rparr>"




definition demo_login_world :: "session_row list \<Rightarrow> login_world" where
  "demo_login_world rows = \<lparr>lw_trace = [], lw_ticks = 0, lw_sessions = rows\<rparr>"

section \<open>Properties of the TOTP generator\<close>

lemma sint32_small: "0 \<le> k \<Longrightarrow> k < 2 ^ 31 \<Longrightarrow> sint (word_of_int k :: 32 word) = k"
  by (simp add: sint_sbintrunc' signed_take_bit_int_eq_self)

lemma js_and_mask: "n < 32 \<Longrightarrow> js_and c (mask n) = c mod 2 ^ n"
proof -
  assume n: "n < 32"
  have "((word_of_int c :: 32 word) AND word_of_int (mask n)) = word_of_int (take_bit n c)"
    by (simp add: take_bit_eq_mask of_int_and_eq)
  moreover have "0 \<le> take_bit n c" by simp
  moreover have "take_bit n c < 2 ^ 31"
  proof -
    have "take_bit n c < 2 ^ n" by simp
    also have "(2::int) ^ n \<le> 2 ^ 31" using n by (intro power_increasing) simp_all
    finally show ?thesis .
  qed
  ultimately show ?thesis unfolding js_and_def
    by (simp add: sint32_small take_bit_eq_mod)
qed

lemma js_and_255: "js_and c 255 = c mod 256"
  using js_and_mask [of 8 c] by (simp add: mask_eq_exp_minus_1)

lemma js_and_127: "js_and c 127 = c mod 128"
  using js_and_mask [of 7 c] by (simp add: mask_eq_exp_minus_1)

lemma js_and_15: "js_and c 15 = c mod 16"
  using js_and_mask [of 4 c] by (simp add: mask_eq_exp_minus_1)

lemma js_shl_small:
  assumes "0 \<le> a" "a * 2 ^ n < 2 ^ 31" "n < 32"
  shows "js_shl a n = a * 2 ^ n"
proof -
  have "push_bit (n mod 32) (word_of_int a :: 32 word) = word_of_int (a * 2 ^ n)"
    using assms(3) by (simp add: push_bit_eq_mult)
  moreover have "0 \<le> a * 2 ^ n" using assms(1) by simp
  ultimately show ?thesis unfolding js_shl_def using assms(2) sint32_small by presburger
qed

lemma js_or_small:
  assumes "0 \<le> a" "a < 2 ^ 31" "0 \<le> b" "b < 2 ^ 31"
  shows "js_or a b = a OR b"
proof -
  have "(word_of_int a :: 32 word) OR word_of_int b = word_of_int (a OR b)"
    by (simp add: of_int_or_eq)
  moreover have "0 \<le> a OR b" using assms by simp
  moreover have "a OR b < 2 ^ 31" using assms by (intro OR_upper)
  ultimately show ?thesis unfolding js_or_def using sint32_small by presburger
qed

lemma or_push: "0 \<le> d \<Longrightarrow> d < 2 ^ n \<Longrightarrow> d OR push_bit n (x::int) = d + x * 2 ^ n"
proof -
  assume "0 \<le> d" "d < 2 ^ n"
  then have "take_bit n d = d" by (simp add: take_bit_int_eq_self)
  then have "d OR push_bit n x = concat_bit n d x" by (simp add: concat_bit_def)
  also have "\<dots> = take_bit n d + push_bit n x" by (rule concat_bit_eq)
  finally show ?thesis using \<open>take_bit n d = d\<close> by (simp add: push_bit_eq_mult)
qed

lemma trunc_arith:
  fixes A B C D :: nat
  assumes "B < 256" "C < 256" "D < 256"
  shows "(A * 16777216 + B * 65536 + C * 256 + D) mod 2147483648
         = (A mod 128) * 16777216 + B * 65536 + C * 256 + D"
proof -
  define q r where "q = A div 128" and "r = A mod 128"
  have A: "A = 128 * q + r" and r: "r < 128" by (simp_all add: q_def r_def)
  have small: "r * 16777216 + B * 65536 + C * 256 + D < 2147483648"
    using assms r by linarith
  have "A * 16777216 + B * 65536 + C * 256 + D
        = q * 2147483648 + (r * 16777216 + B * 65536 + C * 256 + D)"
    using A by linarith
  then have "(A * 16777216 + B * 65536 + C * 256 + D) mod 2147483648
        = (r * 16777216 + B * 65536 + C * 256 + D) mod 2147483648"
    by (metis mod_mult_self3)
  with small show ?thesis by (simp add: r_def)
qed


lemma binary_pack:
  fixes A B C D :: nat
  assumes "A < 256" "B < 256" "C < 256" "D < 256"
  shows "js_or (js_or (js_or (js_shl (js_and (int A) 127) 24)
                             (js_shl (js_and (int B) 255) 16))
                      (js_shl (js_and (int C) 255) 8))
               (js_and (int D) 255)
         = int ((A * 16777216 + B * 65536 + C * 256 + D) mod 2147483648)"
proof -
  define a where "a = int (A mod 128)"
  define b where "b = int B"
  define c where "c = int C"
  define d where "d = int D"
  have bnd: "0 \<le> a" "a < 128" "0 \<le> b" "b < 256" "0 \<le> c" "c < 256" "0 \<le> d" "d < 256"
    using assms by (simp_all add: a_def b_def c_def d_def)
  have ands: "js_and (int A) 127 = a" "js_and (int B) 255 = b"
             "js_and (int C) 255 = c" "js_and (int D) 255 = d"
    using assms by (simp_all add: js_and_127 js_and_255 a_def b_def c_def d_def zmod_int)
  have s1: "js_shl a 24 = a * 2 ^ 24" using bnd by (intro js_shl_small) simp_all
  have s2: "js_shl b 16 = b * 2 ^ 16" using bnd by (intro js_shl_small) simp_all
  have s3: "js_shl c 8 = c * 2 ^ 8" using bnd by (intro js_shl_small) simp_all
  have o1: "js_or (a * 2 ^ 24) (b * 2 ^ 16) = b * 2 ^ 16 + a * 2 ^ 24"
  proof -
    have "js_or (a * 2 ^ 24) (b * 2 ^ 16) = (a * 2 ^ 24) OR (b * 2 ^ 16)"
      using bnd by (intro js_or_small) simp_all
    also have "\<dots> = (b * 2 ^ 16) OR push_bit 24 a"
      by (simp add: push_bit_eq_mult or.commute)
    also have "\<dots> = b * 2 ^ 16 + a * 2 ^ 24"
      using bnd by (intro or_push) simp_all
    finally show ?thesis .
  qed
  have o2: "js_or (b * 2 ^ 16 + a * 2 ^ 24) (c * 2 ^ 8) = c * 2 ^ 8 + b * 2 ^ 16 + a * 2 ^ 24"
  proof -
    have "js_or (b * 2 ^ 16 + a * 2 ^ 24) (c * 2 ^ 8) = (b * 2 ^ 16 + a * 2 ^ 24) OR (c * 2 ^ 8)"
      using bnd by (intro js_or_small) simp_all
    also have "\<dots> = (c * 2 ^ 8) OR push_bit 16 (b + a * 2 ^ 8)"
      by (simp add: push_bit_eq_mult or.commute algebra_simps)
    also have "\<dots> = c * 2 ^ 8 + (b + a * 2 ^ 8) * 2 ^ 16"
      using bnd by (intro or_push) simp_all
    finally show ?thesis by (simp add: algebra_simps)
  qed
  have o3: "js_or (c * 2 ^ 8 + b * 2 ^ 16 + a * 2 ^ 24) d
            = d + c * 2 ^ 8 + b * 2 ^ 16 + a * 2 ^ 24"
  proof -
    have "js_or (c * 2 ^ 8 + b * 2 ^ 16 + a * 2 ^ 24) d = (c * 2 ^ 8 + b * 2 ^ 16 + a * 2 ^ 24) OR d"
      using bnd by (intro js_or_small) simp_all
    also have "\<dots> = d OR push_bit 8 (c + b * 2 ^ 8 + a * 2 ^ 16)"
      by (simp add: push_bit_eq_mult or.commute algebra_simps)
    also have "\<dots> = d + (c + b * 2 ^ 8 + a * 2 ^ 16) * 2 ^ 8"
      using bnd by (intro or_push) simp_all
    finally show ?thesis by (simp add: algebra_simps)
  qed
  have "int ((A * 16777216 + B * 65536 + C * 256 + D) mod 2147483648)
        = d + c * 2 ^ 8 + b * 2 ^ 16 + a * 2 ^ 24"
    using trunc_arith [OF assms(2-4), of A] by (simp add: a_def b_def c_def d_def)
  then show ?thesis by (simp only: ands s1 s2 s3 o1 o2 o3)
qed

lemma fixed_digits_zero: "fixed_digits k 0 = replicate k (CHR ''0'')"
  by (induction k) (simp_all add: digit_char_def replicate_append_same)

lemma padStart_toString10:
  "0 < k \<Longrightarrow> n < 10 ^ k \<Longrightarrow> padStart k (CHR ''0'') (toString10 n) = fixed_digits k n"
proof (induction k arbitrary: n)
  case 0
  then show ?case by simp
next
  case (Suc k)
  show ?case
  proof (cases "n < 10")
    case True
    then show ?thesis
      by (simp add: toString10.simps [of n] padStart_def fixed_digits_zero)
  next
    case False
    with Suc.prems have k: "0 < k" by (cases k) simp_all
    from Suc.prems have "n div 10 < 10 ^ k" by (simp add: less_mult_imp_div_less mult.commute)
    from Suc.IH [OF k this] have IH: "padStart k (CHR ''0'') (toString10 (n div 10)) = fixed_digits k (n div 10)" .
    from False show ?thesis
      by (simp add: toString10.simps [of n] padStart_def IH [unfolded padStart_def, symmetric] Suc_diff_le)
  qed
qed

lemma length_fixed_digits: "length (fixed_digits k n) = k"
  by (induction k arbitrary: n) simp_all

lemma digit_char_is_digit: "d < 10 \<Longrightarrow> is_digit (digit_char d)"
  unfolding digit_char_def is_digit_def by (rule nth_mem) simp

lemma fixed_digits_are_digits: "list_all is_digit (fixed_digits k n)"
  by (induction k arbitrary: n) (simp_all add: digit_char_is_digit)

lemma counter_loop_gen:
  "k \<le> length bs \<Longrightarrow> 0 \<le> c \<Longrightarrow>
   counter_loop k c bs
   = map (\<lambda>i. word_of_int ((c div 256 ^ (k - 1 - i)) mod 256)) [0 ..< k] @ drop k bs"
proof (induction k arbitrary: c bs)
  case 0
  then show ?case by simp
next
  case (Suc k)
  let ?w = "word_of_int (c mod 256) :: byte"
  have len: "k \<le> length (bs[k := ?w])" using Suc.prems by simp
  have c': "0 \<le> c div 256" using Suc.prems by simp
  have dr: "drop k (bs[k := ?w]) = ?w # drop (Suc k) bs"
    using Suc.prems by (simp add: drop_update_swap [symmetric] Cons_nth_drop_Suc [symmetric] del: drop_update_swap)
  have step: "(c div 256) div 256 ^ (k - Suc i) = c div 256 ^ (k - i)" if "i < k" for i
  proof -
    from that have "k - i = Suc (k - Suc i)" by simp
    then show ?thesis using Suc.prems(2) by (simp add: zdiv_zmult2_eq)
  qed
  have "counter_loop (Suc k) c bs = counter_loop k (c div 256) (bs[k := ?w])"
    by (simp add: js_and_255)
  also have "\<dots> = map (\<lambda>i. word_of_int (((c div 256) div 256 ^ (k - 1 - i)) mod 256)) [0 ..< k]
                     @ drop k (bs[k := ?w])"
    by (rule Suc.IH [OF len c'])
  also have "map (\<lambda>i. word_of_int (((c div 256) div 256 ^ (k - 1 - i)) mod 256) :: byte) [0 ..< k]
             = map (\<lambda>i. word_of_int ((c div 256 ^ (k - i)) mod 256)) [0 ..< k]"
    by (rule map_cong) (simp_all add: step)
  finally show ?case by (simp add: dr)
qed

lemma counter_loop_rfc:
  assumes "0 \<le> c"
  shows "counter_loop 8 c (replicate 8 0) = rfc_counter_bytes (nat c)"
proof -
  obtain m where c: "c = int m" using assms nonneg_int_cases by blast
  have el: "(word_of_int ((int m div 256 ^ j) mod 256) :: byte) = of_nat ((m div 256 ^ j) mod 256)" for j
  proof -
    have "(int m div 256 ^ j) mod 256 = int ((m div 256 ^ j) mod 256)"
      by (simp add: zdiv_int zmod_int)
    then show ?thesis by (simp only: word_of_int_nat nat_int of_nat_0_le_iff)
  qed
  have "counter_loop 8 c (replicate 8 0)
        = map (\<lambda>i. word_of_int ((c div 256 ^ (8 - 1 - i)) mod 256)) [0 ..< 8] @ drop 8 (replicate 8 (0::byte))"
    using assms by (intro counter_loop_gen) simp_all
  then show ?thesis by (simp add: rfc_counter_bytes_def c el)
qed

lemma js_rem_nonneg: "0 \<le> a \<Longrightarrow> 0 < b \<Longrightarrow> js_rem a b = a mod b"
  by (cases "a = 0") (simp_all add: js_rem_def)

lemma otp_string:
  "padStart 6 (CHR ''0'') (js_toString (js_rem (int t) 1000000)) = fixed_digits 6 (t mod 1000000)"
proof -
  have "js_rem (int t) 1000000 = int (t mod 1000000)"
    by (simp add: js_rem_nonneg zmod_int)
  then have "js_toString (js_rem (int t) 1000000) = toString10 (t mod 1000000)"
    by (simp only: js_toString_def nat_int) simp
  moreover have "t mod 1000000 < 10 ^ 6" by simp
  ultimately show ?thesis using padStart_toString10 [of 6 "t mod 1000000"] by simp
qed

lemma truncation_eq:
  assumes len: "length hash = 20"
  shows "(let offset = js_and (byte_or0 hash (int (length hash) - 1)) 15
          in js_or (js_or (js_or (js_shl (js_and (byte_or0 hash offset) 127) 24)
                                 (js_shl (js_and (byte_or0 hash (offset + 1)) 255) 16))
                          (js_shl (js_and (byte_or0 hash (offset + 2)) 255) 8))
                   (js_and (byte_or0 hash (offset + 3)) 255))
         = int (rfc_truncate hash)"
proof -
  define off where "off = unat (last hash) mod 16"
  define A where "A = unat (hash ! off)"
  define B where "B = unat (hash ! (off + 1))"
  define C where "C = unat (hash ! (off + 2))"
  define D where "D = unat (hash ! (off + 3))"
  have off: "off < 16" by (simp add: off_def)
  have ne: "hash \<noteq> []" using len by auto
  have "byte_or0 hash (int (length hash) - 1) = uint (last hash)"
    using len by (simp add: byte_or0_def last_conv_nth [OF ne])
  then have offset: "js_and (byte_or0 hash (int (length hash) - 1)) 15 = int off"
    by (simp add: js_and_15 off_def zmod_int)
  have r0: "byte_or0 hash (int off) = int A"
    using off len by (simp add: byte_or0_def A_def)
  have r1: "byte_or0 hash (int off + 1) = int B"
    using off len by (simp add: byte_or0_def B_def nat_add_distrib)
  have r2: "byte_or0 hash (int off + 2) = int C"
    using off len by (simp add: byte_or0_def C_def nat_add_distrib)
  have r3: "byte_or0 hash (int off + 3) = int D"
    using off len by (simp add: byte_or0_def D_def nat_add_distrib)
  have b: "A < 256" "B < 256" "C < 256" "D < 256"
    using unsigned_less [of "hash ! off", where ?'a = nat]
      unsigned_less [of "hash ! (off + 1)", where ?'a = nat]
      unsigned_less [of "hash ! (off + 2)", where ?'a = nat]
      unsigned_less [of "hash ! (off + 3)", where ?'a = nat]
    by (simp_all add: A_def B_def C_def D_def)
  have tr: "rfc_truncate hash = (A * 16777216 + B * 65536 + C * 256 + D) mod 2147483648"
    by (simp add: rfc_truncate_def Let_def off_def A_def B_def C_def D_def)
  show ?thesis
    unfolding Let_def offset r0 r1 r2 r3 tr
    by (rule binary_pack [OF b])
qed

lemma indexOf_None_iff: "indexOf xs c = None \<longleftrightarrow> c \<notin> set xs"
  by (induction xs) auto

lemma indexOf_Some_nth: "indexOf xs c = Some i \<Longrightarrow> i < length xs \<and> xs ! i = c"
  by (induction xs arbitrary: i) (auto split: if_splits)

lemma toUpperCase_char_fixed:
  "c \<notin> set ''abcdefghijklmnopqrstuvwxyz'' \<Longrightarrow> toUpperCase_char c = c"
proof -
  assume "c \<notin> set ''abcdefghijklmnopqrstuvwxyz''"
  then have "indexOf ''abcdefghijklmnopqrstuvwxyz'' c = None"
    by (rule iffD2 [OF indexOf_None_iff])
  then show ?thesis by (simp only: toUpperCase_char_def option.case)
qed

lemma toUpperCase_lower_letters:
  "list_all (\<lambda>c. toUpperCase_char c \<notin> set ''abcdefghijklmnopqrstuvwxyz''
                  \<and> toUpperCase_char c \<noteq> CHR ''='' \<and> c \<noteq> CHR ''='')
     ''abcdefghijklmnopqrstuvwxyz''"
  by code_simp

lemma toUpperCase_char_lower:
  assumes "c \<in> set ''abcdefghijklmnopqrstuvwxyz''"
  shows "toUpperCase_char c \<notin> set ''abcdefghijklmnopqrstuvwxyz''"
    and "toUpperCase_char c \<noteq> CHR ''=''" and "c \<noteq> CHR ''=''"
  using toUpperCase_lower_letters assms unfolding list_all_iff by blast+



lemma toUpperCase_char_eq_iff: "toUpperCase_char c = CHR ''='' \<longleftrightarrow> c = CHR ''=''"
proof (cases "c \<in> set ''abcdefghijklmnopqrstuvwxyz''")
  case True
  then show ?thesis using toUpperCase_char_lower(2,3) by blast
next
  case False
  then have "toUpperCase_char c = c" by (rule toUpperCase_char_fixed)
  with False show ?thesis by metis
qed


lemma stripTrailingEq_toUpperCase:
  "stripTrailingEq (toUpperCase s) = toUpperCase (stripTrailingEq s)"
proof -
  have "(\<lambda>c. c = CHR ''='') \<circ> toUpperCase_char = (\<lambda>c. c = CHR ''='')"
    by (rule ext) (simp add: toUpperCase_char_eq_iff)
  then show ?thesis
    by (simp add: stripTrailingEq_def toUpperCase_def rev_map dropWhile_map)
qed




subsection \<open>Normalizing and decoding the secret\<close>

lemma toUpperCase_char_all:
  "list_all (\<lambda>c. toUpperCase_char c = ascii_upper c) Enum.enum"
  by code_simp

lemma toUpperCase_char_ascii_upper: "toUpperCase_char c = ascii_upper c"
proof -
  have "c \<in> set Enum.enum" by (simp add: UNIV_enum [symmetric])
  with toUpperCase_char_all show ?thesis unfolding list_all_iff by blast
qed

lemma stripTrailingEq_take: "stripTrailingEq s = take (length s - padding_length s) s"
  by (simp add: stripTrailingEq_def padding_length_def dropWhile_eq_drop rev_drop)

lemma cleanSecret_normalized: "cleanSecret s = normalized_secret s"
proof -
  have "cleanSecret s = map toUpperCase_char (stripTrailingEq s)"
    using stripTrailingEq_toUpperCase [of s] by (simp add: cleanSecret_def toUpperCase_def)
  also have "\<dots> = map ascii_upper (stripTrailingEq s)"
    by (simp add: toUpperCase_char_ascii_upper)
  finally show ?thesis by (simp add: normalized_secret_def stripTrailingEq_take)
qed


lemma parseInt2_snoc:
  "parseInt2 (xs @ [x]) = 2 * parseInt2 xs + (if x = CHR ''1'' then 1 else 0)"
  by (simp add: parseInt2_def)

lemma parseInt2_append:
  "parseInt2 (a @ b) = parseInt2 a * 2 ^ length b + parseInt2 b"
proof (induction b rule: rev_induct)
  case Nil
  then show ?case by (simp add: parseInt2_def)
next
  case (snoc x xs)
  have "parseInt2 (a @ xs @ [x]) = 2 * parseInt2 (a @ xs) + (if x = CHR ''1'' then 1 else 0)"
    using parseInt2_snoc [of "a @ xs" x] by simp
  also have "\<dots> = 2 * (parseInt2 a * 2 ^ length xs + parseInt2 xs)
                   + (if x = CHR ''1'' then 1 else 0)"
    by (simp only: snoc.IH)
  also have "\<dots> = parseInt2 a * 2 ^ length (xs @ [x]) + parseInt2 (xs @ [x])"
    by (simp add: parseInt2_snoc algebra_simps)
  finally show ?case by simp
qed

lemma parseInt2_less: "parseInt2 b < 2 ^ length b"
proof (induction b rule: rev_induct)
  case Nil
  then show ?case by (simp add: parseInt2_def)
next
  case (snoc x xs)
  then show ?case by (auto simp add: parseInt2_snoc algebra_simps)
qed

lemma parseInt2_window:
  assumes "d + k \<le> length bits"
  shows "parseInt2 (take k (drop d bits))
         = parseInt2 bits div 2 ^ (length bits - (d + k)) mod 2 ^ k"
proof -
  define a where "a = take d bits"
  define b where "b = take k (drop d bits)"
  define c where "c = drop k (drop d bits)"
  have "b @ c = drop d bits" by (simp only: b_def c_def append_take_drop_id)
  then have bits: "bits = a @ b @ c" by (simp only: a_def append_take_drop_id)
  have lb: "length b = k" using assms by (simp add: b_def)
  have lc: "length c = length bits - (d + k)" by (simp add: c_def)
  have "parseInt2 bits = (parseInt2 a * 2 ^ k + parseInt2 b) * 2 ^ length c + parseInt2 c"
    by (simp add: bits parseInt2_append lb algebra_simps power_add)
  then have "parseInt2 bits div 2 ^ length c = parseInt2 a * 2 ^ k + parseInt2 b"
    using parseInt2_less [of c] by simp
  then have "parseInt2 bits div 2 ^ length c mod 2 ^ k = parseInt2 b"
    using parseInt2_less [of b] by (simp add: lb)
  then show ?thesis by (simp add: lc b_def)
qed

lemma five_bits_all:
  "list_all (\<lambda>v. length (padStart 5 (CHR ''0'') (toString2 v)) = 5
        \<and> parseInt2 (padStart 5 (CHR ''0'') (toString2 v)) = v) [0 ..< 32]"
  by code_simp

lemma five_bits:
  assumes "v < 32"
  shows "length (padStart 5 (CHR ''0'') (toString2 v)) = 5"
    and "parseInt2 (padStart 5 (CHR ''0'') (toString2 v)) = v"
proof -
  have "v \<in> set [0 ..< 32]" using assms by simp
  with five_bits_all show "length (padStart 5 (CHR ''0'') (toString2 v)) = 5"
    and "parseInt2 (padStart 5 (CHR ''0'') (toString2 v)) = v"
    unfolding list_all_iff by blast+
qed

lemma base32_values_all:
  "list_all (\<lambda>c. indexOf base32Chars c = Some (base32_value c) \<and> base32_value c < 32)
     base32Chars"
  by code_simp

lemma base32_values:
  assumes "c \<in> set base32Chars"
  shows "indexOf base32Chars c = Some (base32_value c)" and "base32_value c < 32"
  using base32_values_all assms unfolding list_all_iff by blast+

lemma base32_bits_snoc:
  "base32_bits (cs @ [c]) bits =
     (case base32_bits cs bits of
        Inl e \<Rightarrow> Inl e
      | Inr bits' \<Rightarrow>
          (case indexOf base32Chars c of
             None \<Rightarrow> Inl (Error ''Invalid base32 character'')
           | Some val \<Rightarrow> Inr (bits' @ padStart 5 (CHR ''0'') (toString2 val))))"
proof (induction cs arbitrary: bits)
  case Nil
  then show ?case by (simp split: option.splits)
next
  case (Cons a cs)
  then show ?case by (simp split: option.splits)
qed

lemma base32_bits_number:
  assumes "\<forall>c\<in>set cs. c \<in> set base32Chars"
  shows "\<exists>bits. base32_bits cs [] = Inr bits \<and> length bits = 5 * length cs
           \<and> parseInt2 bits = rfc_base32_number cs"
  using assms
proof (induction cs rule: rev_induct)
  case Nil
  then show ?case by (simp add: parseInt2_def rfc_base32_number_def)
next
  case (snoc c cs)
  then obtain bits where b: "base32_bits cs [] = Inr bits" "length bits = 5 * length cs"
      "parseInt2 bits = rfc_base32_number cs"
    by auto
  have c: "c \<in> set base32Chars" using snoc.prems by simp
  note v = base32_values [OF c]
  note f = five_bits [OF v(2)]
  have "base32_bits (cs @ [c]) []
        = Inr (bits @ padStart 5 (CHR ''0'') (toString2 (base32_value c)))"
    by (simp add: base32_bits_snoc b(1) v(1))
  moreover have "length (bits @ padStart 5 (CHR ''0'') (toString2 (base32_value c)))
        = 5 * length (cs @ [c])"
    by (simp add: b(2) f(1))
  moreover have "parseInt2 (bits @ padStart 5 (CHR ''0'') (toString2 (base32_value c)))
        = rfc_base32_number (cs @ [c])"
    by (simp add: parseInt2_append f b(3) rfc_base32_number_def)
  ultimately show ?case by blast
qed

lemma bits_to_bytes_number:
  "bits_to_bytes bits
   = map (\<lambda>j. of_nat (parseInt2 bits div 2 ^ (length bits - 8 * (j + 1)) mod 256))
       [0 ..< length bits div 8]"
proof -
  have "parseInt2 (take 8 (drop (i * 8) bits))
        = parseInt2 bits div 2 ^ (length bits - 8 * (i + 1)) mod 256"
    if "i < length bits div 8" for i
  proof -
    have "i * 8 + 8 \<le> length bits" using that by simp
    from parseInt2_window [OF this] show ?thesis by (simp add: algebra_simps)
  qed
  then show ?thesis by (simp add: bits_to_bytes_def)
qed

lemma base32Decode_rfc:
  assumes "\<forall>c\<in>set (normalized_secret s). c \<in> set base32Chars"
  shows "base32Decode s = Inr (rfc_base32_bytes (normalized_secret s))"
proof -
  from base32_bits_number [OF assms]
  obtain bits where b: "base32_bits (normalized_secret s) [] = Inr bits"
      "length bits = 5 * length (normalized_secret s)"
      "parseInt2 bits = rfc_base32_number (normalized_secret s)"
    by blast
  show ?thesis
    by (simp add: base32Decode_def cleanSecret_normalized b(1) bits_to_bytes_number b(2,3)
          rfc_base32_bytes_def)
qed



lemma rfc_base32_bytes_empty: "rfc_base32_bytes s = [] \<longleftrightarrow> length s < 2"
  by (auto simp add: rfc_base32_bytes_def)

subsection \<open>The code\<close>

lemma generateTotpValue_key:
  assumes sha1: "\<forall>key msg. length (sign_hmac_sha1 crypto key msg) = 20"
    and now: "0 \<le> now_ms" and step: "0 < timeStep"
    and dec: "base32Decode secret = Inr key" and key: "key \<noteq> []"
  shows "generateTotpValue crypto now_ms secret timeStep
           = Inr (rfc_totp (sign_hmac_sha1 crypto) key (nat (now_ms div 1000)) (nat timeStep))"
proof -
  define c where "c = now_ms div 1000 div timeStep"
  have c0: "0 \<le> c" using now step by (simp add: c_def pos_imp_zdiv_nonneg_iff)
  have cn: "nat (now_ms div 1000) div nat timeStep = nat c"
    using now step by (simp add: c_def nat_div_distrib)
  define hash where "hash = sign_hmac_sha1 crypto key (rfc_counter_bytes (nat c))"
  have len: "length hash = 20" using sha1 by (simp add: hash_def)
  have h: "hmacSha1 crypto key (rfc_counter_bytes (nat c)) = Inr hash"
    using key by (simp add: hmacSha1_def importKey_def hash_def)
  show ?thesis
    using truncation_eq [OF len, unfolded Let_def]
    by (simp add: generateTotpValue_def dec Let_def counter_loop_rfc [OF c0] c_def [symmetric]
          h hash_def [symmetric] rfc_totp_def cn otp_string)
qed

lemma generateTotpValue_empty_key:
  assumes "base32Decode secret = Inr []"
  shows "generateTotpValue crypto now_ms secret timeStep
           = Inl (Error (zero_length_key_message crypto))"
  by (simp add: generateTotpValue_def assms Let_def hmacSha1_def importKey_def)

lemma generateTotpValue_bucket:
  assumes "now' div 1000 div timeStep = now_ms div 1000 div timeStep"
  shows "generateTotpValue crypto now' secret timeStep
         = generateTotpValue crypto now_ms secret timeStep"
  unfolding generateTotpValue_def Let_def assms by (rule refl)


subsection \<open>Running the definitions\<close>

lemma demo_sha1: "\<forall>key msg. length (sign_hmac_sha1 demo_crypto key msg) = 20"
  by (auto simp add: demo_crypto_def demo_hmac_def)

lemma demo_secret_bits:
  "base32_bits (cleanSecret ''GEZDGNBV'') [] = Inr ''0011000100110010001100110011010000110101''"
  by code_simp

lemma demo_secret_decoded: "base32Decode ''GEZDGNBV'' = Inr [49, 50, 51, 52, 53]"
  by (simp add: base32Decode_def demo_secret_bits bits_to_bytes_def parseInt2_def upt_rec)

lemma demo_normalized: "normalized_secret ''gezdgnbv=='' = ''GEZDGNBV''"
  by code_simp

lemma demo_normalized_upper: "normalized_secret ''GEZDGNBV'' = ''GEZDGNBV''"
  by code_simp

lemma demo_rfc_base32_number: "rfc_base32_number ''GEZDGNBV'' = 211295614005"
  by (simp add: rfc_base32_number_def base32_value_def)

lemma demo_rfc_base32_bytes: "rfc_base32_bytes ''GEZDGNBV'' = [49, 50, 51, 52, 53]"
  by (simp add: rfc_base32_bytes_def demo_rfc_base32_number upt_rec)

lemma demo_counter_bytes: "rfc_counter_bytes (59 div 30) = [0, 0, 0, 0, 0, 0, 0, 1]"
  by (simp add: rfc_counter_bytes_def upt_rec)

lemma demo_hash:
  "demo_hmac [49, 50, 51, 52, 53] [0, 0, 0, 0, 0, 0, 0, 1]
   = [0, 0, 0, 0, 0, 0, 0, 1, 49, 50, 51, 52, 53, 9, 9, 9, 9, 9, 9, 9]"
  by (simp add: demo_hmac_def eval_nat_numeral)

lemma demo_truncate:
  "rfc_truncate [0, 0, 0, 0, 0, 0, 0, 1, 49, 50, 51, 52, 53, 9, 9, 9, 9, 9, 9, 9] = 842216501"
  by (simp add: rfc_truncate_def)

lemma fixed_digits_numeral:
  "fixed_digits (numeral k) n
   = fixed_digits (pred_numeral k) (n div 10) @ [digit_char (n mod 10)]"
  by (simp only: numeral_eq_Suc [of k] fixed_digits.simps)

lemma demo_digits: "fixed_digits 6 (842216501 mod 1000000) = ''216501''"
  by (simp add: fixed_digits_numeral digit_char_def)

lemma demo_rfc_totp: "rfc_totp demo_hmac [49, 50, 51, 52, 53] 59 30 = ''216501''"
  by (simp only: rfc_totp_def demo_counter_bytes demo_hash demo_truncate demo_digits)

lemma demo_totp_value: "generateTotpValue demo_crypto 59000 ''GEZDGNBV'' 30 = Inr ''216501''"
proof -
  have "nat (59000 div 1000) = 59" "nat 30 = 30" by simp_all
  with generateTotpValue_key [OF demo_sha1, of 59000 30 "''GEZDGNBV''" "[49, 50, 51, 52, 53]",
      OF _ _ demo_secret_decoded]
  have "generateTotpValue demo_crypto 59000 ''GEZDGNBV'' 30
        = Inr (rfc_totp (sign_hmac_sha1 demo_crypto) [49, 50, 51, 52, 53] 59 30)"
    by simp
  then show ?thesis by (simp add: demo_crypto_def demo_rfc_totp)
qed

lemma demo_one_letter_decoded: "base32Decode ''A'' = Inr []"
  by (simp add: base32Decode_def cleanSecret_normalized normalized_secret_def padding_length_def
        ascii_upper_def base32Chars_def bits_to_bytes_def padStart_def toString2.simps)


subsection \<open>The claims\<close>

text \<open>
  Claim C8, counterexample. The secret \<open>A\<close> decodes under the base32 alphabet, to no
  byte at all; \<open>importKey\<close> throws on the key of length zero, so \<open>generateTotpValue\<close>
  throws where the claim has it return the code of the RFC algorithm.
\<close>

theorem generateTotpValue_empty_key_counterexample:
  "base32Decode ''A'' = Inr []
   \<and> generateTotpValue demo_crypto 59000 ''A'' 30
       = Inl (Error (zero_length_key_message demo_crypto))"
  using generateTotpValue_empty_key [OF demo_one_letter_decoded]
  by (simp add: demo_one_letter_decoded)

text \<open>
  Claim C8, amended. For a secret whose normalized form consists of base32 characters
  and has at least two of them, so that it decodes to at least one byte, and for a fixed
  time, \<open>generateTotpValue\<close> returns exactly the RFC code: counter
  \<open>floor(unix_seconds / step)\<close> as 8 big-endian bytes, HMAC-SHA1 keyed by the base32
  decoding of the normalized secret, dynamic truncation to 31 bits, reduction modulo
  1,000,000, zero-padding to 6 digits. The output has exactly 6 decimal digits and is the
  same for two times in the same bucket. HMAC-SHA1 is any function with 20-byte output.
\<close>

theorem generateTotpValue_rfc:
  assumes sha1: "\<forall>key msg. length (sign_hmac_sha1 crypto key msg) = 20"
    and now: "0 \<le> now_ms" and step: "0 < timeStep"
    and alphabet: "\<forall>c\<in>set (normalized_secret secret). c \<in> set ''ABCDEFGHIJKLMNOPQRSTUVWXYZ234567''"
    and two: "2 \<le> length (normalized_secret secret)"
  shows "generateTotpValue crypto now_ms secret timeStep
           = Inr (rfc_totp (sign_hmac_sha1 crypto) (rfc_base32_bytes (normalized_secret secret))
                    (nat (now_ms div 1000)) (nat timeStep))
         \<and> length (rfc_totp (sign_hmac_sha1 crypto) (rfc_base32_bytes (normalized_secret secret))
                    (nat (now_ms div 1000)) (nat timeStep)) = 6
         \<and> list_all is_digit
             (rfc_totp (sign_hmac_sha1 crypto) (rfc_base32_bytes (normalized_secret secret))
                (nat (now_ms div 1000)) (nat timeStep))
         \<and> (\<forall>now'. 0 \<le> now' \<and> now' div 1000 div timeStep = now_ms div 1000 div timeStep
                \<longrightarrow> generateTotpValue crypto now' secret timeStep
                    = generateTotpValue crypto now_ms secret timeStep)"
proof -
  define key where "key = rfc_base32_bytes (normalized_secret secret)"
  have dec: "base32Decode secret = Inr key"
    unfolding key_def using alphabet by (intro base32Decode_rfc) (simp add: base32Chars_def)
  have ne: "key \<noteq> []" using two by (simp add: key_def rfc_base32_bytes_empty)
  note code = generateTotpValue_key [OF sha1 now step dec ne]
  have six: "length (rfc_totp (sign_hmac_sha1 crypto) key (nat (now_ms div 1000)) (nat timeStep)) = 6"
    by (simp add: rfc_totp_def length_fixed_digits)
  have digs: "list_all is_digit
      (rfc_totp (sign_hmac_sha1 crypto) key (nat (now_ms div 1000)) (nat timeStep))"
    by (simp add: rfc_totp_def fixed_digits_are_digits)
  have det: "generateTotpValue crypto now' secret timeStep
             = generateTotpValue crypto now_ms secret timeStep"
    if "now' div 1000 div timeStep = now_ms div 1000 div timeStep" for now'
    using that by (rule generateTotpValue_bucket)
  from code six digs det show ?thesis unfolding key_def by blast
qed

theorem generateTotpValue_rfc_witness:
  "normalized_secret ''gezdgnbv=='' = ''GEZDGNBV''
   \<and> rfc_base32_bytes ''GEZDGNBV'' = [49, 50, 51, 52, 53]
   \<and> generateTotpValue demo_crypto 59000 ''gezdgnbv=='' 30 = Inr ''216501''
   \<and> length ''216501'' = 6"
proof -
  have a: "\<forall>c\<in>set (normalized_secret ''gezdgnbv==''). c \<in> set ''ABCDEFGHIJKLMNOPQRSTUVWXYZ234567''"
    by (simp add: demo_normalized)
  have t: "2 \<le> length (normalized_secret ''gezdgnbv=='')" by (simp add: demo_normalized)
  have "nat (59000 div 1000) = 59" "nat 30 = 30" by simp_all
  with generateTotpValue_rfc [OF demo_sha1, of 59000 30 "''gezdgnbv==''", OF _ _ a t]
  have "generateTotpValue demo_crypto 59000 ''gezdgnbv=='' 30
        = Inr (rfc_totp (sign_hmac_sha1 demo_crypto) (rfc_base32_bytes ''GEZDGNBV'') 59 30)"
    by (simp add: demo_normalized)
  then show ?thesis
    by (simp add: demo_crypto_def demo_rfc_base32_bytes demo_rfc_totp demo_normalized)
qed



section \<open>Properties of the cookie conversion\<close>

lemma split_loop_nonempty: "split_loop cur s \<noteq> []"
  by (induction s arbitrary: cur) simp_all

lemma join_cons: "fs \<noteq> [] \<Longrightarrow> join sep (f # fs) = f @ sep @ join sep fs"
  by (cases fs) simp_all

lemma join_split_loop: "join '','' (split_loop cur s) = cur @ s"
proof (induction s arbitrary: cur)
  case Nil
  then show ?case by simp
next
  case (Cons c cs)
  show ?case
  proof (cases "c = CHR '','' \<and> name_eq_ahead cs")
    case True
    with Cons.IH [of "[]"] show ?thesis
      by (simp add: join_cons [OF split_loop_nonempty])
  next
    case False
    with Cons.IH [of "cur @ [c]"] show ?thesis by auto
  qed
qed

lemma comma_classes: "\<not> is_space (CHR '','')" "\<not> is_word (CHR '','')" "\<not> is_word (CHR ''='')"
  by (simp_all add: is_space_def is_word_def)

lemma name_eq_ahead_parts:
  "name_eq_ahead s \<longleftrightarrow>
     (\<exists>t. takeWhile is_word (dropWhile is_space s) \<noteq> []
          \<and> dropWhile is_word (dropWhile is_space s) = CHR ''='' # t)"
proof (cases "dropWhile is_word (dropWhile is_space s)")
  case Nil
  show ?thesis unfolding name_eq_ahead_def Let_def Nil by simp
next
  case (Cons c t)
  show ?thesis unfolding name_eq_ahead_def Let_def Cons by auto
qed

lemma name_eq_ahead_append:
  assumes "name_eq_ahead p"
  shows "name_eq_ahead (p @ r)"
proof -
  define u where "u = dropWhile is_space p"
  from assms obtain t where w: "takeWhile is_word u \<noteq> []" and e: "dropWhile is_word u = CHR ''='' # t"
    unfolding name_eq_ahead_parts u_def by blast
  from w have "u \<noteq> []" by auto
  then obtain x where "x \<in> set p" "\<not> is_space x"
    unfolding u_def by (auto simp add: dropWhile_eq_Nil_conv)
  then have d: "dropWhile is_space (p @ r) = u @ r"
    unfolding u_def by (simp add: dropWhile_append1)
  from e have "dropWhile is_word u \<noteq> []" by simp
  then obtain y where y: "y \<in> set u" "\<not> is_word y"
    by (auto simp add: dropWhile_eq_Nil_conv)
  then have "takeWhile is_word (u @ r) = takeWhile is_word u"
    and "dropWhile is_word (u @ r) = dropWhile is_word u @ r"
    by (simp_all add: takeWhile_append1 dropWhile_append1)
  with w e d show ?thesis unfolding name_eq_ahead_parts by simp
qed

lemma name_eq_ahead_before_comma:
  assumes "name_eq_ahead (p @ CHR '','' # r)"
  shows "name_eq_ahead p"
proof -
  define u where "u = dropWhile is_space p"
  from assms obtain t where
    w: "takeWhile is_word (dropWhile is_space (p @ CHR '','' # r)) \<noteq> []" and
    e: "dropWhile is_word (dropWhile is_space (p @ CHR '','' # r)) = CHR ''='' # t"
    unfolding name_eq_ahead_parts by blast
  have sp: "\<exists>x\<in>set p. \<not> is_space x"
  proof (rule ccontr)
    assume "\<not> (\<exists>x\<in>set p. \<not> is_space x)"
    then have "dropWhile is_space (p @ CHR '','' # r) = CHR '','' # r"
      by (simp add: dropWhile_append2 comma_classes)
    with w show False by (simp add: comma_classes)
  qed
  then have d: "dropWhile is_space (p @ CHR '','' # r) = u @ CHR '','' # r"
    unfolding u_def by (auto simp add: dropWhile_append1)
  have wd: "\<exists>y\<in>set u. \<not> is_word y"
  proof (rule ccontr)
    assume "\<not> (\<exists>y\<in>set u. \<not> is_word y)"
    then have "dropWhile is_word (u @ CHR '','' # r) = CHR '','' # r"
      by (simp add: dropWhile_append2 comma_classes)
    with e d show False by simp
  qed
  then have "takeWhile is_word (u @ CHR '','' # r) = takeWhile is_word u"
    and "dropWhile is_word (u @ CHR '','' # r) = dropWhile is_word u @ CHR '','' # r"
    by (auto simp add: takeWhile_append1 dropWhile_append1)
  with w e d have "takeWhile is_word u \<noteq> []"
    and "dropWhile is_word u @ CHR '','' # r = CHR ''='' # t" by simp_all
  moreover from wd have "dropWhile is_word u \<noteq> []"
    by (auto simp add: dropWhile_eq_Nil_conv)
  ultimately show ?thesis
    unfolding name_eq_ahead_parts u_def by (cases "dropWhile is_word (dropWhile is_space p)") auto
qed

lemma name_eq_ahead_hd:
  "name_eq_ahead (cur @ s) \<Longrightarrow> name_eq_ahead (hd (split_loop cur s))"
proof (induction s arbitrary: cur)
  case Nil
  then show ?case by simp
next
  case (Cons c cs)
  show ?case
  proof (cases "c = CHR '','' \<and> name_eq_ahead cs")
    case True
    with Cons.prems have "name_eq_ahead cur" by (auto dest: name_eq_ahead_before_comma)
    with True show ?thesis by simp
  next
    case False
    from Cons.prems have "name_eq_ahead ((cur @ [c]) @ cs)" by simp
    from Cons.IH [OF this] False show ?thesis by auto
  qed
qed

lemma fragments_start_with_name:
  "\<forall>f\<in>set (tl (split_loop cur s)). name_eq_ahead f"
proof (induction s arbitrary: cur)
  case Nil
  then show ?case by simp
next
  case (Cons c cs)
  show ?case
  proof (cases "c = CHR '','' \<and> name_eq_ahead cs")
    case True
    then have h: "name_eq_ahead (hd (split_loop [] cs))"
      using name_eq_ahead_hd [of "[]" cs] by simp
    obtain f fs where ffs: "split_loop [] cs = f # fs"
      using split_loop_nonempty [of "[]" cs] by (cases "split_loop [] cs") auto
    with Cons.IH [of "[]"] h True show ?thesis by simp
  next
    case False
    with Cons.IH [of "cur @ [c]"] show ?thesis by auto
  qed
qed

lemma fragments_not_split_further:
  "no_inner_split cur s \<Longrightarrow> \<forall>f\<in>set (split_loop cur s). no_inner_split f []"
proof (induction s arbitrary: cur)
  case Nil
  then show ?case by simp
next
  case (Cons c cs)
  show ?case
  proof (cases "c = CHR '','' \<and> name_eq_ahead cs")
    case True
    have "no_inner_split cur []"
      unfolding no_inner_split_def
    proof (intro allI impI)
      fix i assume "i < length cur" "cur ! i = CHR '',''"
      with Cons.prems have "\<not> name_eq_ahead (drop (Suc i) cur @ c # cs)"
        by (simp add: no_inner_split_def)
      then show "\<not> name_eq_ahead (drop (Suc i) cur @ [])"
        using name_eq_ahead_append [of "drop (Suc i) cur" "c # cs"] by auto
    qed
    moreover have "no_inner_split [] cs" by (simp add: no_inner_split_def)
    ultimately show ?thesis using True Cons.IH [of "[]"] by simp
  next
    case False
    have "no_inner_split (cur @ [c]) cs"
      unfolding no_inner_split_def
    proof (intro allI impI)
      fix i assume i: "i < length (cur @ [c])" and ci: "(cur @ [c]) ! i = CHR '',''"
      show "\<not> name_eq_ahead (drop (Suc i) (cur @ [c]) @ cs)"
      proof (cases "i < length cur")
        case True
        with ci Cons.prems show ?thesis
          by (simp add: no_inner_split_def nth_append)
      next
        case False
        with i have "i = length cur" by simp
        with ci \<open>\<not> (c = CHR '','' \<and> name_eq_ahead cs)\<close> show ?thesis by simp
      qed
    qed
    with False Cons.IH [of "cur @ [c]"] show ?thesis by auto
  qed
qed

lemma set_trim: "set (trim s) \<subseteq> set s"
proof -
  have "set (trim s) \<subseteq> set (dropWhile is_space s)"
    unfolding trim_def using set_dropWhileD [of _ is_space "rev (dropWhile is_space s)"] by auto
  also have "\<dots> \<subseteq> set s" using set_dropWhileD by fastforce
  finally show ?thesis .
qed

lemma name_value_no_semicolon: "CHR '';'' \<notin> set (name_value f)"
proof
  assume "CHR '';'' \<in> set (name_value f)"
  then have "CHR '';'' \<in> set (takeWhile (\<lambda>c. c \<noteq> CHR '';'') f)"
    using set_trim unfolding name_value_def by blast
  then show False by (auto dest: set_takeWhileD)
qed

text \<open>
  Claim C7. The Set-Cookie to Cookie conversion splits the raw value only at commas that
  are followed by optional white space and a \<open>name=\<close> pattern: the fragments joined by
  commas give back the input, every fragment after the first starts with that pattern,
  and no fragment holds a further such comma. It keeps of each fragment the trimmed text
  before the first semicolon, so no extracted pair holds a semicolon, and joins the pairs
  with \<open>"; "\<close>. Merging \<open>"a=1; Path=/, b=2; Path=/"\<close> with \<open>"c=3; Path=/"\<close> yields exactly
  \<open>"a=1; b=2; c=3"\<close>.
\<close>

theorem convertSetCookieToCookie_splits_on_cookie_commas:
  assumes "ascii setCookie"
  shows "convertSetCookieToCookie setCookie
           = join ''; '' (map (\<lambda>f. trim (takeWhile (\<lambda>c. c \<noteq> CHR '';'') f))
                              (cookie_fragments setCookie))
         \<and> join '','' (cookie_fragments setCookie) = setCookie
         \<and> (\<forall>f\<in>set (tl (cookie_fragments setCookie)). name_eq_ahead f)
         \<and> (\<forall>f\<in>set (cookie_fragments setCookie).
               \<forall>i<length f. f ! i = CHR '','' \<longrightarrow> \<not> name_eq_ahead (drop (Suc i) f))
         \<and> (\<forall>f\<in>set (cookie_fragments setCookie). CHR '';'' \<notin> set (name_value f))
         \<and> convertSetCookieToCookie (allCookies ''a=1; Path=/, b=2; Path=/'' ''c=3; Path=/'')
             = ''a=1; b=2; c=3''"
proof -
  have a: "convertSetCookieToCookie setCookie
           = join ''; '' (map (\<lambda>f. trim (takeWhile (\<lambda>c. c \<noteq> CHR '';'') f))
                              (cookie_fragments setCookie))"
    by (simp add: convertSetCookieToCookie_def name_value_def [abs_def])
  have b: "join '','' (cookie_fragments setCookie) = setCookie"
    by (simp add: cookie_fragments_def join_split_loop)
  have c: "\<forall>f\<in>set (tl (cookie_fragments setCookie)). name_eq_ahead f"
    unfolding cookie_fragments_def by (rule fragments_start_with_name)
  have "no_inner_split [] setCookie" by (simp add: no_inner_split_def)
  then have "\<forall>f\<in>set (cookie_fragments setCookie). no_inner_split f []"
    unfolding cookie_fragments_def by (rule fragments_not_split_further)
  then have d: "\<forall>f\<in>set (cookie_fragments setCookie).
               \<forall>i<length f. f ! i = CHR '','' \<longrightarrow> \<not> name_eq_ahead (drop (Suc i) f)"
    by (simp add: no_inner_split_def)
  have e: "\<forall>f\<in>set (cookie_fragments setCookie). CHR '';'' \<notin> set (name_value f)"
    by (simp add: name_value_no_semicolon)
  have f: "convertSetCookieToCookie (allCookies ''a=1; Path=/, b=2; Path=/'' ''c=3; Path=/'')
             = ''a=1; b=2; c=3''"
    by code_simp
  from a b c d e f show ?thesis by blast
qed

lemma demo_cookie_fragments:
  "cookie_fragments ''a=1; Expires=Wed, 21 Oct 2015 07:28:00 GMT, b=2; Path=/''
   = [''a=1; Expires=Wed, 21 Oct 2015 07:28:00 GMT'', '' b=2; Path=/'']"
  by code_simp

theorem convertSetCookieToCookie_splits_on_cookie_commas_witness:
  "ascii ''a=1; Expires=Wed, 21 Oct 2015 07:28:00 GMT, b=2; Path=/''
   \<and> convertSetCookieToCookie ''a=1; Expires=Wed, 21 Oct 2015 07:28:00 GMT, b=2; Path=/''
       = ''a=1; b=2''
   \<and> name_eq_ahead '' b=2; Path=/''
   \<and> \<not> name_eq_ahead '' 21 Oct 2015 07:28:00 GMT''"
proof -
  have a: "ascii ''a=1; Expires=Wed, 21 Oct 2015 07:28:00 GMT, b=2; Path=/''"
    by (simp add: ascii_def)
  have t: "join ''; '' (map (\<lambda>f. trim (takeWhile (\<lambda>c. c \<noteq> CHR '';'') f))
             [''a=1; Expires=Wed, 21 Oct 2015 07:28:00 GMT'', '' b=2; Path=/'']) = ''a=1; b=2''"
    by code_simp
  have n: "\<not> name_eq_ahead '' 21 Oct 2015 07:28:00 GMT''" by code_simp
  from convertSetCookieToCookie_splits_on_cookie_commas [OF a] a t n show ?thesis
    by (simp add: demo_cookie_fragments)
qed

section \<open>Properties of the freshness check\<close>

lemma toString10_digits: "list_all is_digit (toString10 n)"
proof (induction n rule: toString10.induct)
  case (1 n)
  show ?case
  proof (cases "n < 10")
    case True
    then show ?thesis by (simp add: toString10.simps [of n] digit_char_is_digit)
  next
    case False
    with 1 show ?thesis by (simp add: toString10.simps [of n] digit_char_is_digit)
  qed
qed

lemma toString10_nonempty: "toString10 n \<noteq> []"
  by (subst toString10.simps) simp

lemma is_digit_zero: "is_digit (CHR ''0'')"
  by (simp add: is_digit_def)

lemma pad2_digits: "list_all is_digit (pad2 n)"
  using toString10_digits [of n]
  by (auto simp add: pad2_def padStart_def is_digit_zero list_all_iff)

lemma pad2_nonempty: "pad2 n \<noteq> []"
  by (simp add: pad2_def padStart_def toString10_nonempty)

lemma digits_no_separator:
  assumes "list_all is_digit s"
  shows "CHR '' '' \<notin> set s" "CHR ''-'' \<notin> set s" "CHR '':'' \<notin> set s"
proof -
  have "\<not> is_digit (CHR '' '')" "\<not> is_digit (CHR ''-'')" "\<not> is_digit (CHR '':'')"
    by (simp_all add: is_digit_def)
  with assms show "CHR '' '' \<notin> set s" "CHR ''-'' \<notin> set s" "CHR '':'' \<notin> set s"
    by (auto simp add: list_all_iff)
qed

lemma js_split_nonempty: "js_split sep s \<noteq> []"
  by (induction s) (simp_all split: list.splits)

lemma js_split_no_sep: "sep \<notin> set s \<Longrightarrow> js_split sep s = [s]"
  by (induction s) auto

lemma js_split_append: "sep \<notin> set a \<Longrightarrow> js_split sep (a @ sep # b) = a # js_split sep b"
  by (induction a) auto

lemma digit_value_table: "list_all (\<lambda>d. digit_value (digit_char d) = d) [0 ..< 10]"
  by code_simp

lemma digit_value_digit_char: "d < 10 \<Longrightarrow> digit_value (digit_char d) = d"
  using digit_value_table by (simp add: list_all_iff)

lemma parse_digits_snoc: "parse_digits (s @ [c]) = 10 * parse_digits s + digit_value c"
  by (simp add: parse_digits_def)

lemma parse_digits_toString10: "parse_digits (toString10 n) = n"
proof (induction n rule: toString10.induct)
  case (1 n)
  show ?case
  proof (cases "n < 10")
    case True
    then show ?thesis
      using parse_digits_snoc [of "[]" "digit_char n"]
      by (simp add: toString10.simps [of n] digit_value_digit_char parse_digits_def)
  next
    case False
    with 1 show ?thesis
      by (simp add: toString10.simps [of n] parse_digits_snoc digit_value_digit_char)
  qed
qed

lemma parse_digits_zeros: "parse_digits (replicate k (CHR ''0'') @ s) = parse_digits s"
proof (induction k)
  case 0
  then show ?case by simp
next
  case (Suc k)
  have "digit_value (CHR ''0'') = 0" by (simp add: digit_value_def)
  then have "parse_digits (CHR ''0'' # t) = parse_digits t" for t
    by (simp add: parse_digits_def)
  with Suc show ?case by simp
qed

lemma js_Number_toString10: "js_Number (toString10 n) = Some (int n)"
  by (simp add: js_Number_def toString10_digits parse_digits_toString10)

lemma js_Number_pad2: "js_Number (pad2 n) = Some (int n)"
proof -
  have "parse_digits (pad2 n) = n"
    unfolding pad2_def padStart_def by (simp only: parse_digits_zeros parse_digits_toString10)
  then show ?thesis by (simp add: js_Number_def pad2_digits)
qed

lemma roll_days_in_range:
  "0 \<le> k \<Longrightarrow> k < days_in_month y m \<Longrightarrow> roll_days y m k = LocalDate y m (k + 1)"
  by (simp add: roll_days.simps [of y m k])

lemma days_in_month_ge: "28 \<le> days_in_month y m"
  by (simp add: days_in_month_def)

lemma roll_days_minus_one:
  "roll_days y m (- 1)
   = LocalDate (fst (prev_month y m)) (snd (prev_month y m))
       (days_in_month (fst (prev_month y m)) (snd (prev_month y m)))"
proof -
  let ?y = "fst (prev_month y m)" and ?m = "snd (prev_month y m)"
  have "roll_days y m (- 1) = roll_days ?y ?m (- 1 + days_in_month ?y ?m)"
    by (subst roll_days.simps) simp
  also have "\<dots> = LocalDate ?y ?m ((- 1 + days_in_month ?y ?m) + 1)"
    using days_in_month_ge [of ?y ?m] by (intro roll_days_in_range) simp_all
  finally show ?thesis by simp
qed

lemma split_timestamp:
  assumes "list_all is_digit Y" "list_all is_digit M" "list_all is_digit D"
    "list_all is_digit h" "list_all is_digit mi" "list_all is_digit s"
  shows "js_split (CHR '' '') (Y @ ''-'' @ M @ ''-'' @ D @ '' '' @ h @ '':'' @ mi @ '':'' @ s)
         = [Y @ ''-'' @ M @ ''-'' @ D, h @ '':'' @ mi @ '':'' @ s]"
    and "js_split (CHR ''-'') (Y @ ''-'' @ M @ ''-'' @ D) = [Y, M, D]"
    and "js_split (CHR '':'') (h @ '':'' @ mi @ '':'' @ s) = [h, mi, s]"
proof -
  have l: "CHR '' '' \<notin> set (Y @ ''-'' @ M @ ''-'' @ D)"
    using assms digits_no_separator(1) by auto
  have r: "CHR '' '' \<notin> set (h @ '':'' @ mi @ '':'' @ s)"
    using assms digits_no_separator(1) by auto
  have "js_split (CHR '' '') ((Y @ ''-'' @ M @ ''-'' @ D) @ CHR '' '' # (h @ '':'' @ mi @ '':'' @ s))
        = (Y @ ''-'' @ M @ ''-'' @ D) # js_split (CHR '' '') (h @ '':'' @ mi @ '':'' @ s)"
    using l by (rule js_split_append)
  then show "js_split (CHR '' '') (Y @ ''-'' @ M @ ''-'' @ D @ '' '' @ h @ '':'' @ mi @ '':'' @ s)
         = [Y @ ''-'' @ M @ ''-'' @ D, h @ '':'' @ mi @ '':'' @ s]"
    using js_split_no_sep [OF r] by simp
  have "js_split (CHR ''-'') (Y @ CHR ''-'' # (M @ CHR ''-'' # D))
        = Y # M # js_split (CHR ''-'') D"
    using assms digits_no_separator(2) by (simp add: js_split_append)
  then show "js_split (CHR ''-'') (Y @ ''-'' @ M @ ''-'' @ D) = [Y, M, D]"
    using assms digits_no_separator(2) by (simp add: js_split_no_sep)
  have "js_split (CHR '':'') (h @ CHR '':'' # (mi @ CHR '':'' # s))
        = h # mi # js_split (CHR '':'') s"
    using assms digits_no_separator(3) by (simp add: js_split_append)
  then show "js_split (CHR '':'') (h @ '':'' @ mi @ '':'' @ s) = [h, mi, s]"
    using assms digits_no_separator(3) by (simp add: js_split_no_sep)
qed

lemma cutoff_date_today:
  assumes "1970 \<le> y" "m < 12" "1 \<le> d" "int d \<le> days_in_month (int y) (int m)"
  shows "new_Date (Some (int y)) (js_plus (Some (int (m + 1))) (- 1)) (Some (int d))
         = LocalDate (int y) (int m) (int d)"
proof -
  have m: "int m div 12 = 0" "int m mod 12 = int m" using assms(2) by simp_all
  have "roll_days (int y) (int m) (int d - 1) = LocalDate (int y) (int m) (int d - 1 + 1)"
    using assms(3,4) by (intro roll_days_in_range) simp_all
  then show ?thesis
    using assms(1) by (simp add: new_Date_def js_plus_def m)
qed

lemma cutoff_date_yesterday:
  assumes "m < 12" "1 \<le> d" "int d \<le> days_in_month (int y) (int m)" "1 \<le> y"
  shows "setDate (LocalDate (int y) (int m) (int d))
           (js_plus (getDate (LocalDate (int y) (int m) (int d))) (- 1))
         = (case yesterday (y, m + 1, d) of
              (y', m', d') \<Rightarrow> LocalDate (int y') (int m' - 1) (int d'))"
proof -
  have sd: "setDate (LocalDate (int y) (int m) (int d))
           (js_plus (getDate (LocalDate (int y) (int m) (int d))) (- 1))
        = roll_days (int y) (int m) (int d - 2)"
    by (simp add: setDate_def getDate_def js_plus_def)
  show ?thesis
  proof (cases "1 < d")
    case True
    have e: "int d - 2 = int (d - 1) - 1" using True by linarith
    have "0 \<le> int (d - 1) - 1" using True by linarith
    moreover have "int (d - 1) - 1 < days_in_month (int y) (int m)" using assms(3) True by linarith
    ultimately have "roll_days (int y) (int m) (int (d - 1) - 1)
        = LocalDate (int y) (int m) (int (d - 1) - 1 + 1)"
      by (rule roll_days_in_range)
    then have rd: "roll_days (int y) (int m) (int (d - 1) - 1) = LocalDate (int y) (int m) (int (d - 1))"
      by (simp only: diff_add_cancel)
    have yd: "yesterday (y, m + 1, d) = (y, m + 1, d - 1)"
      using True by (simp add: yesterday_def)
    show ?thesis unfolding sd e rd yd by simp
  next
    case False
    with assms have d: "d = 1" by simp
    have r: "roll_days (int y) (int m) (int d - 2)
        = LocalDate (fst (prev_month (int y) (int m))) (snd (prev_month (int y) (int m)))
            (days_in_month (fst (prev_month (int y) (int m))) (snd (prev_month (int y) (int m))))"
      unfolding d using roll_days_minus_one [of "int y" "int m"] by simp
    show ?thesis
    proof (cases "m = 0")
      case True
      have "yesterday (y, m + 1, d) = (y - 1, 12, 31)"
        unfolding d True by (simp add: yesterday_def)
      moreover have "prev_month (int y) (int m) = (int (y - 1), 11)"
        using True assms(4) by (simp add: prev_month_def)
      moreover have "days_in_month (int (y - 1)) 11 = 31" by (simp add: days_in_month_def)
      ultimately show ?thesis unfolding sd r by simp
    next
      case False
      have "yesterday (y, m + 1, d) = (y, m, nat (days_in_month (int y) (int m - 1)))"
        unfolding d using False by (simp add: yesterday_def)
      moreover have "prev_month (int y) (int m) = (int y, int m - 1)"
        using False by (simp add: prev_month_def)
      moreover have "0 \<le> days_in_month (int y) (int m - 1)"
        using days_in_month_ge [of "int y" "int m - 1"] by simp
      ultimately show ?thesis unfolding sd r by simp
    qed
  qed
qed

lemma js_String_nat: "js_String (Some (int n)) = toString10 n"
  by (simp add: js_String_def js_toString_def)

lemma yesterday_month_pos:
  "yesterday (y, m + 1, d) = (y', m', d') \<Longrightarrow> 1 \<le> m'"
  by (auto simp add: yesterday_def split: if_splits)

lemma cutoff_string:
  assumes "1 \<le> m'"
  shows "js_String (getFullYear (LocalDate (int y') (int m' - 1) (int d'))) @ ''-''
         @ padStart 2 (CHR ''0'') (js_String (js_plus (getMonth (LocalDate (int y') (int m' - 1) (int d'))) 1))
         @ ''-'' @ padStart 2 (CHR ''0'') (js_String (getDate (LocalDate (int y') (int m' - 1) (int d'))))
         @ '' 08:30:00''
         = date_string (y', m', d') @ '' 08:30:00''"
proof -
  have "int m' - 1 + 1 = int m'" by simp
  then have "js_plus (getMonth (LocalDate (int y') (int m' - 1) (int d'))) 1 = Some (int m')"
    by (simp only: getMonth_def js_plus_def js_date.case option.map)
  then show ?thesis
    by (simp add: getFullYear_def getDate_def js_String_nat date_string_def pad2_def)
qed

lemma getInstrumentsRefreshCutoff_spec:
  assumes wf: "well_formed_fields (date_utc (now_ms + 19800000))"
  shows "getInstrumentsRefreshCutoff date_utc now_ms
         = Inr (spec_cutoff (date_utc (now_ms + 19800000)))"
proof -
  define f where "f = date_utc (now_ms + 19800000)"
  define y m d where "y = utcFullYear f" and "m = utcMonth f" and "d = utcDate f"
  define Y M D where "Y = toString10 y" and "M = pad2 (m + 1)" and "D = pad2 d"
  define h mi s where "h = pad2 (utcHours f)" and "mi = pad2 (utcMinutes f)"
    and "s = pad2 (utcSeconds f)"
  have wf': "1970 \<le> y" "m < 12" "1 \<le> d" "int d \<le> days_in_month (int y) (int m)"
    using wf by (simp_all add: well_formed_fields_def f_def y_def m_def d_def)
  have dg: "list_all is_digit Y" "list_all is_digit M" "list_all is_digit D"
    "list_all is_digit h" "list_all is_digit mi" "list_all is_digit s"
    by (simp_all add: Y_def M_def D_def h_def mi_def s_def toString10_digits pad2_digits)
  have ts: "getISTTimestamp date_utc now_ms
            = Y @ ''-'' @ M @ ''-'' @ D @ '' '' @ h @ '':'' @ mi @ '':'' @ s"
    by (simp add: getISTTimestamp_def Let_def f_def y_def m_def d_def Y_def M_def D_def
          h_def mi_def s_def)
  have ne: "Y @ ''-'' @ M @ ''-'' @ D \<noteq> []" "h @ '':'' @ mi @ '':'' @ s \<noteq> []"
    by (simp_all add: Y_def toString10_nonempty h_def pad2_nonempty)
  have nums: "js_Number Y = Some (int y)" "js_Number M = Some (int (m + 1))"
    "js_Number D = Some (int d)" "js_Number h = Some (int (utcHours f))"
    "js_Number mi = Some (int (utcMinutes f))"
    by (simp_all add: Y_def M_def D_def h_def mi_def js_Number_toString10 js_Number_pad2)
  note sp = split_timestamp [OF dg, simplified]
  have cond: "(js_less (Some (int (utcHours f))) 8
               \<or> (js_equals (Some (int (utcHours f))) 8 \<and> js_less (Some (int (utcMinutes f))) 30))
              = before_0830 f"
    by (auto simp add: js_less_def js_equals_def before_0830_def)
  have today: "new_Date (Some (int y)) (js_plus (Some (1 + int m)) (- 1)) (Some (int d))
               = LocalDate (int y) (int m) (int d)"
    using cutoff_date_today [OF wf'] by (simp add: add.commute)
  have unfold: "getInstrumentsRefreshCutoff date_utc now_ms
      = (let cutoffDate0 = LocalDate (int y) (int m) (int d);
             cutoffDate = (if before_0830 f
                           then setDate cutoffDate0 (js_plus (getDate cutoffDate0) (- 1))
                           else cutoffDate0)
         in Inr (js_String (getFullYear cutoffDate) @ ''-''
                 @ padStart 2 (CHR ''0'') (js_String (js_plus (getMonth cutoffDate) 1))
                 @ ''-'' @ padStart 2 (CHR ''0'') (js_String (getDate cutoffDate))
                 @ '' 08:30:00''))"
    unfolding getInstrumentsRefreshCutoff_def ts Let_def
    using ne by (simp add: sp nums cond today)
  show ?thesis
  proof (cases "before_0830 f")
    case False
    have "1 \<le> m + 1" by simp
    from cutoff_string [OF this, of y d, simplified] False show ?thesis
      unfolding unfold Let_def spec_cutoff_def f_def [symmetric] y_def [symmetric]
        m_def [symmetric] d_def [symmetric]
      by simp
  next
    case True
    obtain y' m' d' where yd: "yesterday (y, m + 1, d) = (y', m', d')"
      by (cases "yesterday (y, m + 1, d)") auto
    have m': "1 \<le> m'" using yd by (rule yesterday_month_pos)
    have y1: "1 \<le> y" using wf'(1) by simp
    have sd: "setDate (LocalDate (int y) (int m) (int d))
            (js_plus (getDate (LocalDate (int y) (int m) (int d))) (- 1))
          = LocalDate (int y') (int m' - 1) (int d')"
      using cutoff_date_yesterday [OF wf'(2,3,4) y1] unfolding yd by simp
    from cutoff_string [OF m', of y' d'] True show ?thesis
      unfolding unfold Let_def spec_cutoff_def f_def [symmetric] y_def [symmetric]
        m_def [symmetric] d_def [symmetric]
      by (simp only: if_True sd yd)
  qed
qed

lemma spec_cutoff_nonempty: "spec_cutoff f \<noteq> []"
  by (simp add: spec_cutoff_def Let_def)

lemma demo_clock_cutoff: "spec_cutoff (demo_clock t) = ''2024-01-10 08:30:00''"
  by code_simp

lemma demo_clock_well_formed: "well_formed_fields (demo_clock t)"
  by (simp add: well_formed_fields_def demo_clock_def days_in_month_def)

lemma demo_clock_now: "getISTTimestamp demo_clock t = ''2024-01-10 09:00:00''"
  by code_simp

lemma sql_max_Max: "sql_max (x # xs) = Some (Max (set (x # xs)))"
proof -
  have "(\<lambda>a b. max b a) = (max :: string \<Rightarrow> string \<Rightarrow> string)"
    by (intro ext) (rule max.commute)
  then show ?thesis using Max.set_eq_fold [of x xs] by (simp add: foldl_conv_fold)
qed

lemma isRefreshRequired_cases:
  assumes "well_formed_fields (date_utc (now_ms + 19800000))"
  shows "isRefreshRequired date_utc now_ms query_fails updated_ats
         \<longleftrightarrow> query_fails \<or> updated_ats = []
             \<or> Max (set updated_ats) < spec_cutoff (date_utc (now_ms + 19800000))"
proof -
  obtain x xs where co: "spec_cutoff (date_utc (now_ms + 19800000)) = x # xs"
    using spec_cutoff_nonempty [of "date_utc (now_ms + 19800000)"]
    by (cases "spec_cutoff (date_utc (now_ms + 19800000))") auto
  show ?thesis
  proof (cases updated_ats)
    case Nil
    then show ?thesis
      by (simp add: isRefreshRequired_def getInstrumentsRefreshCutoff_spec [of date_utc now_ms, OF assms]
            getLatestUpdateTime_def select_max_updated_at_def)
  next
    case (Cons u us)
    define m where "m = Max (set updated_ats)"
    have sm: "sql_max updated_ats = Some m" by (simp only: Cons sql_max_Max m_def)
    have ne: "updated_ats \<noteq> []" by (simp add: Cons)
    have "[] < x # xs" by simp
    then show ?thesis
      unfolding isRefreshRequired_def getInstrumentsRefreshCutoff_spec [of date_utc now_ms, OF assms]
        getLatestUpdateTime_def select_max_updated_at_def co m_def [symmetric] sm
      using ne by (cases "m = []") auto
  qed
qed

text \<open>
  Claim C4. \<open>isRefreshRequired()\<close> returns true exactly when the query for the maximum
  \<open>updated_at\<close> fails, or the table is empty, so that the maximum is absent, or the
  greatest \<open>updated_at\<close> of the table is lexicographically less than the cutoff; the
  cutoff is 08:30:00 of yesterday when the IST time of day is before 08:30 and of today
  otherwise. At 2024-01-10 09:00:00, \<open>updated_at\<close> 2024-01-10 08:29:59 is stale,
  2024-01-10 08:30:01 is fresh, and an empty table is stale. The clock reading is any
  well-formed calendar time from 1970 on.
\<close>

theorem isRefreshRequired_iff_stale:
  assumes wf: "well_formed_fields (date_utc (now_ms + 19800000))"
  shows "getInstrumentsRefreshCutoff date_utc now_ms
           = Inr (spec_cutoff (date_utc (now_ms + 19800000)))
         \<and> (isRefreshRequired date_utc now_ms query_fails updated_ats
              \<longleftrightarrow> query_fails \<or> updated_ats = []
                  \<or> Max (set updated_ats) < spec_cutoff (date_utc (now_ms + 19800000)))
         \<and> getISTTimestamp demo_clock 0 = ''2024-01-10 09:00:00''
         \<and> isRefreshRequired demo_clock 0 False [''2024-01-10 08:29:59'']
         \<and> \<not> isRefreshRequired demo_clock 0 False [''2024-01-10 08:30:01'']
         \<and> isRefreshRequired demo_clock 0 False []"
proof -
  note c = getInstrumentsRefreshCutoff_spec [of date_utc now_ms, OF wf]
  note gen = isRefreshRequired_cases
  have d: "well_formed_fields (demo_clock (0 + 19800000))" by (rule demo_clock_well_formed)
  have e1: "isRefreshRequired demo_clock 0 False [''2024-01-10 08:29:59'']"
    unfolding gen [of demo_clock 0, OF d] demo_clock_cutoff by simp
  have e2: "\<not> isRefreshRequired demo_clock 0 False [''2024-01-10 08:30:01'']"
    unfolding gen [of demo_clock 0, OF d] demo_clock_cutoff by simp
  have e3: "isRefreshRequired demo_clock 0 False []"
    unfolding gen [of demo_clock 0, OF d] by simp
  from c gen [of date_utc now_ms, OF wf] demo_clock_now e1 e2 e3 show ?thesis by blast
qed

lemma demo_clock_early_cutoff: "spec_cutoff (demo_clock_early t) = ''2024-02-29 08:30:00''"
  by code_simp

lemma demo_max_fresh:
  "Max (set [''2024-02-28 09:00:00'', ''2024-02-29 08:30:00'', ''2024-02-27 10:00:00''])
   = ''2024-02-29 08:30:00''"
  by (simp add: max_def)

lemma demo_max_stale:
  "Max (set [''2024-02-28 09:00:00'', ''2024-02-29 08:29:59'', ''2024-02-27 10:00:00''])
   = ''2024-02-29 08:29:59''"
  by (simp add: max_def)

theorem isRefreshRequired_iff_stale_witness:
  "well_formed_fields (demo_clock_early (0 + 19800000))
   \<and> getInstrumentsRefreshCutoff demo_clock_early 0 = Inr ''2024-02-29 08:30:00''
   \<and> isRefreshRequired demo_clock_early 0 False
       [''2024-02-28 09:00:00'', ''2024-02-29 08:29:59'', ''2024-02-27 10:00:00'']
   \<and> \<not> isRefreshRequired demo_clock_early 0 False
         [''2024-02-28 09:00:00'', ''2024-02-29 08:30:00'', ''2024-02-27 10:00:00'']"
proof -
  have w: "well_formed_fields (demo_clock_early (0 + 19800000))"
    by (simp add: well_formed_fields_def demo_clock_early_def days_in_month_def leap_year_def)
  from isRefreshRequired_iff_stale [of demo_clock_early 0 False
        "[''2024-02-28 09:00:00'', ''2024-02-29 08:29:59'', ''2024-02-27 10:00:00'']", OF w]
    isRefreshRequired_iff_stale [of demo_clock_early 0 False
        "[''2024-02-28 09:00:00'', ''2024-02-29 08:30:00'', ''2024-02-27 10:00:00'']", OF w]
    w
  show ?thesis by (simp only: demo_clock_early_cutoff demo_max_fresh demo_max_stale) simp
qed
section \<open>Properties of the instrument refresh\<close>

lemma db_insert_ok:
  "db_insert env i r w = (Inr u, w') \<Longrightarrow>
   insert_result env i r = InsertOk \<and> w' = w\<lparr>table := table w @ [r]\<rparr>"
  by (auto simp add: db_insert_def split: insert_outcome.splits)

lemma db_insert_error:
  "db_insert env i r w = (Inl e, w') \<Longrightarrow> w' = w \<or> w' = rolled_back w"
  by (auto simp add: db_insert_def split: insert_outcome.splits)

lemma insert_loop_ok:
  "insert_loop env i rs w = (Inr n, w') \<Longrightarrow>
   w' = w\<lparr>table := table w @ rs\<rparr> \<and> n = i + length rs"
proof (induction rs arbitrary: i w)
  case Nil
  then show ?case by simp
next
  case (Cons r rs)
  from Cons.prems obtain u w1 where
    i: "db_insert env i r w = (Inr u, w1)" and l: "insert_loop env (Suc i) rs w1 = (Inr n, w')"
    by (auto split: prod.splits sum.splits)
  from db_insert_ok [OF i] Cons.IH [OF l] show ?case by simp
qed

lemma insert_loop_error:
  "insert_loop env i rs w = (Inl e, w') \<Longrightarrow> snapshot w = Some rows \<Longrightarrow>
   open_or_rolled_back rows w' \<and> ticks w' = ticks w"
proof (induction rs arbitrary: i w)
  case Nil
  then show ?case by simp
next
  case (Cons r rs)
  show ?case
  proof (cases "db_insert env i r w")
    case (Pair res w1)
    show ?thesis
    proof (cases res)
      case (Inl e1)
      with Pair Cons.prems have "w' = w1" by simp
      with db_insert_error [of env i r w e1 w1] Pair Inl Cons.prems(2) show ?thesis
        by (auto simp add: open_or_rolled_back_def rolled_back_def)
    next
      case (Inr u)
      with Pair Cons.prems have l: "insert_loop env (Suc i) rs w1 = (Inl e, w')" by simp
      from db_insert_ok [of env i r w u w1] Pair Inr Cons.prems(2)
      have "snapshot w1 = Some rows" "ticks w1 = ticks w" by simp_all
      with Cons.IH [OF l] show ?thesis by simp
    qed
  qed
qed

lemma insert_loop_fails:
  "\<exists>j<length rs. insert_result env (i + j) (rs ! j) \<noteq> InsertOk \<Longrightarrow>
   \<exists>e w'. insert_loop env i rs w = (Inl e, w')"
proof (induction rs arbitrary: i w)
  case Nil
  then show ?case by simp
next
  case (Cons r rs)
  show ?case
  proof (cases "insert_result env i r = InsertOk")
    case False
    then show ?thesis by (cases "insert_result env i r") (simp_all add: db_insert_def)
  next
    case True
    from Cons.prems obtain j where j: "j < length (r # rs)"
      "insert_result env (i + j) ((r # rs) ! j) \<noteq> InsertOk" by blast
    with True obtain k where "j = Suc k" by (cases j) auto
    with j have "\<exists>k<length rs. insert_result env (Suc i + k) (rs ! k) \<noteq> InsertOk" by auto
    from Cons.IH [OF this] True show ?thesis by (simp add: db_insert_def)
  qed
qed

lemma insert_transaction_ok:
  "insert_transaction env rs w = (Inr n, w') \<Longrightarrow>
   snapshot w = None \<and> w' = w\<lparr>table := table w @ rs\<rparr> \<and> n = length rs"
  unfolding insert_transaction_def db_begin_def db_commit_def
  by (auto split: option.splits prod.splits sum.splits dest!: insert_loop_ok)

lemma insert_transaction_error:
  assumes "insert_transaction env rs w = (Inl e, w')" "snapshot w = None"
  shows "open_or_rolled_back (table w) w' \<and> ticks w' = ticks w"
proof (cases "begin_fails env")
  case (Some msg)
  with assms show ?thesis
    by (simp add: insert_transaction_def db_begin_def open_or_rolled_back_def)
next
  case None
  let ?w1 = "w\<lparr>snapshot := Some (table w)\<rparr>"
  have b: "db_begin env w = (Inr (), ?w1)" using None assms(2) by (simp add: db_begin_def)
  show ?thesis
  proof (cases "insert_loop env 0 rs ?w1")
    case (Pair res w2)
    show ?thesis
    proof (cases res)
      case (Inl e2)
      with Pair b assms have "w' = w2" by (simp add: insert_transaction_def)
      with insert_loop_error [of env 0 rs ?w1 e2 w2 "table w"] Pair Inl show ?thesis by simp
    next
      case (Inr n)
      from insert_loop_ok [of env 0 rs ?w1 n w2] Pair Inr
      have w2: "w2 = ?w1\<lparr>table := table ?w1 @ rs\<rparr>" by simp
      with Pair Inr b assms show ?thesis
        by (auto simp add: insert_transaction_def db_commit_def open_or_rolled_back_def
              split: option.splits)
    qed
  qed
qed

lemma insert_transaction_fails:
  assumes "snapshot w = None" "begin_fails env = None"
    "\<exists>j<length rs. insert_result env j (rs ! j) \<noteq> InsertOk"
  shows "\<exists>e w'. insert_transaction env rs w = (Inl e, w')"
proof -
  from assms(3) have "\<exists>j<length rs. insert_result env (0 + j) (rs ! j) \<noteq> InsertOk" by simp
  from insert_loop_fails [OF this, of "w\<lparr>snapshot := Some (table w)\<rparr>"] assms(1,2)
  show ?thesis by (auto simp add: insert_transaction_def db_begin_def)
qed

lemma rollback_after_error:
  assumes "open_or_rolled_back rows w"
  shows "table (snd (db_rollback w)) = rows \<and> snapshot (snd (db_rollback w)) = None
         \<and> ticks (snd (db_rollback w)) = ticks w"
  using assms by (auto simp add: open_or_rolled_back_def db_rollback_def rolled_back_def)

lemma refresh_db_phase:
  assumes "snapshot w0 = None"
  shows "case (case db_delete_all env w0 of
            (Inl (Error msg), w1) \<Rightarrow> (refresh_failed (''Failed to truncate table: '' @ msg), w1)
          | (Inr u, w1) \<Rightarrow>
              (case db_prepare_insert env w1 of
                 (Inl (Error msg), w2) \<Rightarrow> (refresh_failed msg, w2)
               | (Inr u, w2) \<Rightarrow>
                   (case insert_transaction env dbRecords w2 of
                      (Inl (Error msg), w3) \<Rightarrow>
                        (case db_rollback w3 of
                           (Inl (Error msg'), w4) \<Rightarrow> (refresh_failed msg', w4)
                         | (Inr u, w4) \<Rightarrow>
                             (refresh_failed (''Failed to insert data: '' @ msg), w4))
                    | (Inr insertedCount, w3) \<Rightarrow>
                        (\<lparr>success = True, count = insertedCount, error = None\<rparr>, w3))))
         of (res, w') \<Rightarrow>
           snapshot w' = None \<and> ticks w' = ticks w0
           \<and> (if success res then table w' = dbRecords \<and> count res = length dbRecords
               else count res = 0 \<and> (table w' = table w0 \<or> table w' = []))"
proof (cases "delete_fails env")
  case (Some msg)
  with assms show ?thesis by (simp add: db_delete_all_def refresh_failed_def)
next
  case None
  let ?w1 = "w0\<lparr>table := []\<rparr>"
  have d: "db_delete_all env w0 = (Inr (), ?w1)" using None by (simp add: db_delete_all_def)
  show ?thesis
  proof (cases "prepare_fails env")
    case (Some msg)
    with assms d show ?thesis by (simp add: db_prepare_insert_def refresh_failed_def)
  next
    case None
    have p: "db_prepare_insert env ?w1 = (Inr (), ?w1)"
      using None by (simp add: db_prepare_insert_def)
    have s1: "snapshot ?w1 = None" using assms by simp
    show ?thesis
    proof (cases "insert_transaction env dbRecords ?w1")
      case (Pair r3 w3)
      show ?thesis
      proof (cases r3)
        case (Inr n)
        from insert_transaction_ok [of env dbRecords ?w1 n w3] Pair Inr
        have "w3 = ?w1\<lparr>table := table ?w1 @ dbRecords\<rparr>" "n = length dbRecords" by simp_all
        with d p Pair Inr assms show ?thesis by simp
      next
        case (Inl e)
        obtain msg where e: "e = Error msg" by (cases e)
        from insert_transaction_error [of env dbRecords ?w1 e w3, OF _ s1] Pair Inl
        have o: "open_or_rolled_back [] w3" "ticks w3 = ticks w0" by simp_all
        from rollback_after_error [OF o(1)] o(2)
        have r: "table (snd (db_rollback w3)) = []" "snapshot (snd (db_rollback w3)) = None"
          "ticks (snd (db_rollback w3)) = ticks w0" by simp_all
        obtain r4 w4 where rb: "db_rollback w3 = (r4, w4)" by (cases "db_rollback w3")
        with r have w4: "table w4 = []" "snapshot w4 = None" "ticks w4 = ticks w0" by simp_all
        show ?thesis
        proof (cases r4)
          case (Inl e')
          obtain msg' where "e' = Error msg'" by (cases e')
          with d p Pair \<open>r3 = Inl e\<close> e rb Inl w4 show ?thesis by (simp add: refresh_failed_def)
        next
          case (Inr u)
          with d p Pair \<open>r3 = Inl e\<close> e rb w4 show ?thesis by (simp add: refresh_failed_def)
        qed
      qed
    qed
  qed
qed

lemma refresh_success_no_open_transaction:
  assumes "performInstrumentsRefresh env w = (res, w')" "success res"
  shows "snapshot w = None"
  using assms
  unfolding performInstrumentsRefresh_def read_ist_timestamp_def db_delete_all_def
    db_prepare_insert_def refresh_failed_def Let_def
  by (auto split: fetch_result.splits if_splits option.splits sum.splits js_error.splits
        prod.splits dest!: insert_transaction_ok)

lemma refresh_after_parse:
  assumes f: "fetch_instruments env = FetchResponse response" and ok: "response_ok response"
    and b: "resp_body response = Some csvText" and p: "parseCSV csvText = Inr csvData"
    and s: "snapshot w = None" and run: "performInstrumentsRefresh env w = (res, w')"
  shows "snapshot w' = None \<and> ticks w' = Suc (ticks w)
         \<and> (if success res
             then table w'
                    = map (\<lambda>row. transformToDBRecord (env_parseInt env) (env_parseFloat env) row
                             (getISTTimestamp (env_date_utc env) (env_clock env (ticks w)))) csvData
                  \<and> count res = length csvData
             else count res = 0 \<and> (table w' = table w \<or> table w' = []))"
proof -
  let ?w0 = "w\<lparr>ticks := Suc (ticks w)\<rparr>"
  let ?recs = "map (\<lambda>row. transformToDBRecord (env_parseInt env) (env_parseFloat env) row
                             (getISTTimestamp (env_date_utc env) (env_clock env (ticks w)))) csvData"
  have s0: "snapshot ?w0 = None" using s by simp
  from refresh_db_phase [where env = env and dbRecords = ?recs, OF s0] run show ?thesis
    using ok
    by (auto simp add: performInstrumentsRefresh_def f b p read_ist_timestamp_def Let_def
          split: if_splits)
qed

lemma refresh_before_parse:
  assumes run: "performInstrumentsRefresh env w = (res, w')"
    and no: "\<not> (\<exists>response csvText csvData. fetch_instruments env = FetchResponse response
              \<and> response_ok response \<and> resp_body response = Some csvText
              \<and> parseCSV csvText = Inr csvData)"
  shows "\<not> success res \<and> count res = 0 \<and> w' = w"
proof (cases "fetch_instruments env")
  case (FetchThrows msg)
  with run show ?thesis by (auto simp add: performInstrumentsRefresh_def refresh_failed_def)
next
  case (FetchResponse response)
  show ?thesis
  proof (cases "response_ok response")
    case False
    with FetchResponse run show ?thesis
      by (auto simp add: performInstrumentsRefresh_def refresh_failed_def)
  next
    case True
    show ?thesis
    proof (cases "resp_body response")
      case None
      with FetchResponse True run show ?thesis
        by (auto simp add: performInstrumentsRefresh_def refresh_failed_def)
    next
      case (Some csvText)
      with no FetchResponse True obtain e where "parseCSV csvText = Inl e"
        by (cases "parseCSV csvText") auto
      moreover obtain msg where "e = Error msg" by (cases e)
      ultimately show ?thesis using FetchResponse True Some run
        by (auto simp add: performInstrumentsRefresh_def refresh_failed_def)
    qed
  qed
qed

lemma parseCSV_length: "parseCSV csvText = Inr csvData \<Longrightarrow> length csvData = length (feed_data_lines csvText)"
  by (auto simp add: parseCSV_def feed_data_lines_def Let_def split: if_splits)

text \<open>
  Claim C2. Every run of \<open>performInstrumentsRefresh\<close> that returns \<open>success: false\<close>,
  whether the fetch, the parse, the delete or an insert fails, leaves the instrument
  table either exactly as it was before the refresh or completely empty, and leaves no
  transaction open. The run starts with no transaction open.
\<close>

theorem refresh_failure_old_or_empty:
  assumes "snapshot w = None" and "performInstrumentsRefresh env w = (res, w')"
    and "\<not> success res"
  shows "(table w' = table w \<or> table w' = []) \<and> snapshot w' = None"
proof (cases "\<exists>response csvText csvData. fetch_instruments env = FetchResponse response
              \<and> response_ok response \<and> resp_body response = Some csvText
              \<and> parseCSV csvText = Inr csvData")
  case True
  then obtain response csvText csvData where
    "fetch_instruments env = FetchResponse response" "response_ok response"
    "resp_body response = Some csvText" "parseCSV csvText = Inr csvData" by blast
  from refresh_after_parse [OF this assms(1,2)] assms(3) show ?thesis by simp
next
  case False
  from refresh_before_parse [OF assms(2) False] assms(1) show ?thesis by simp
qed

text \<open>
  Claim C9. After a successful \<open>performInstrumentsRefresh\<close> every row of the table
  carries the same \<open>updated_at\<close>, the IST timestamp of the single clock reading the run
  makes before the inserts, and the number of rows is the number of data lines of the
  fetched feed, which is the count the run returns.
\<close>

theorem refresh_success_rows:
  assumes "performInstrumentsRefresh env w = (res, w')" and "success res"
  shows "\<exists>response csvText.
           fetch_instruments env = FetchResponse response
           \<and> resp_body response = Some csvText
           \<and> (\<forall>r\<in>set (table w').
                 updated_at r = getISTTimestamp (env_date_utc env) (env_clock env (ticks w)))
           \<and> ticks w' = Suc (ticks w)
           \<and> length (table w') = length (feed_data_lines csvText)
           \<and> count res = length (table w')"
proof (cases "\<exists>response csvText csvData. fetch_instruments env = FetchResponse response
              \<and> response_ok response \<and> resp_body response = Some csvText
              \<and> parseCSV csvText = Inr csvData")
  case False
  from refresh_before_parse [OF assms(1) False] assms(2) show ?thesis by simp
next
  case True
  then obtain response csvText csvData where h:
    "fetch_instruments env = FetchResponse response" "response_ok response"
    "resp_body response = Some csvText" "parseCSV csvText = Inr csvData" by blast
  have s: "snapshot w = None"
    using assms by (rule refresh_success_no_open_transaction)
  from refresh_after_parse [OF h s assms(1)] assms(2)
  have t: "table w'
           = map (\<lambda>row. transformToDBRecord (env_parseInt env) (env_parseFloat env) row
                    (getISTTimestamp (env_date_utc env) (env_clock env (ticks w)))) csvData"
    and c: "count res = length csvData" and k: "ticks w' = Suc (ticks w)" by simp_all
  have "\<forall>r\<in>set (table w').
          updated_at r = getISTTimestamp (env_date_utc env) (env_clock env (ticks w))"
    unfolding t by (simp add: transformToDBRecord_def)
  moreover have "length (table w') = length (feed_data_lines csvText)"
    unfolding t using parseCSV_length [OF h(4)] by simp
  moreover have "count res = length (table w')" unfolding t using c by simp
  ultimately show ?thesis using h(1,3) k by blast
qed

lemma insert_error_outcome:
  assumes s: "snapshot w = None"
    and f: "fetch_instruments env = FetchResponse response" and ok: "response_ok response"
    and b: "resp_body response = Some csvText" and p: "parseCSV csvText = Inr csvData"
    and d: "delete_fails env = None" and pr: "prepare_fails env = None"
    and bg: "begin_fails env = None"
    and ins: "\<exists>j<length csvData.
               insert_result env j
                 (transformToDBRecord (env_parseInt env) (env_parseFloat env) (csvData ! j)
                    (getISTTimestamp (env_date_utc env) (env_clock env (ticks w))))
               \<noteq> InsertOk"
  shows "\<not> success (fst (performInstrumentsRefresh env w))
         \<and> count (fst (performInstrumentsRefresh env w)) = 0
         \<and> table (snd (performInstrumentsRefresh env w)) = []
         \<and> snapshot (snd (performInstrumentsRefresh env w)) = None"
proof -
  let ?w1 = "w\<lparr>ticks := Suc (ticks w), table := []\<rparr>"
  let ?recs = "map (\<lambda>row. transformToDBRecord (env_parseInt env) (env_parseFloat env) row
                             (getISTTimestamp (env_date_utc env) (env_clock env (ticks w)))) csvData"
  have s1: "snapshot ?w1 = None" using s by simp
  from ins have "\<exists>j<length ?recs. insert_result env j (?recs ! j) \<noteq> InsertOk" by auto
  from insert_transaction_fails [OF s1 bg this]
  obtain e w3 where t: "insert_transaction env ?recs ?w1 = (Inl e, w3)" by blast
  obtain msg where e: "e = Error msg" by (cases e)
  from insert_transaction_error [OF t s1] have o: "open_or_rolled_back [] w3" by simp
  obtain r4 w4 where rb: "db_rollback w3 = (r4, w4)" by (cases "db_rollback w3")
  with rollback_after_error [OF o] have w4: "table w4 = []" "snapshot w4 = None" by simp_all
  have "\<exists>m. performInstrumentsRefresh env w = (refresh_failed m, w4)"
  proof (cases r4)
    case (Inl e')
    obtain msg' where "e' = Error msg'" by (cases e')
    with Inl rb t e ok show ?thesis
      by (auto simp add: performInstrumentsRefresh_def f b p read_ist_timestamp_def Let_def
            db_delete_all_def d db_prepare_insert_def pr)
  next
    case (Inr u)
    with rb t e ok show ?thesis
      by (auto simp add: performInstrumentsRefresh_def f b p read_ist_timestamp_def Let_def
            db_delete_all_def d db_prepare_insert_def pr)
  qed
  with w4 show ?thesis by (auto simp add: refresh_failed_def)
qed


text \<open>
  Claim C1, amended. The rows are deleted by a statement of its own, before the
  transaction begins; only the bulk insert runs inside one transaction. When some insert
  fails, the run reports failure with count 0, the transaction is rolled back, no new row
  is committed, and the table is left empty: never half-populated, but the rows of
  before the refresh are not restored.
\<close>

theorem refresh_insert_error_leaves_empty:
  assumes "snapshot w = None"
    and "fetch_instruments env = FetchResponse response" and "response_ok response"
    and "resp_body response = Some csvText" and "parseCSV csvText = Inr csvData"
    and "delete_fails env = None" and "prepare_fails env = None"
    and "begin_fails env = None"
    and "\<exists>j<length csvData.
               insert_result env j
                 (transformToDBRecord (env_parseInt env) (env_parseFloat env) (csvData ! j)
                    (getISTTimestamp (env_date_utc env) (env_clock env (ticks w))))
               \<noteq> InsertOk"
  shows "\<not> success (fst (performInstrumentsRefresh env w))
         \<and> count (fst (performInstrumentsRefresh env w)) = 0
         \<and> table (snd (performInstrumentsRefresh env w)) = []
         \<and> snapshot (snd (performInstrumentsRefresh env w)) = None"
  using assms by (rule insert_error_outcome)

lemma demo_parse: "parseCSV demo_feed
   = Inr [[(''exchange'', ''NSE''), (''tradingsymbol'', ''NIFTY 50''), (''instrument_token'', ''256265'')],
          [(''exchange'', ''NSE''), (''tradingsymbol'', ''NIFTY BANK''), (''instrument_token'', ''260105'')]]"
  by code_simp

lemma demo_feed_lines: "length (feed_data_lines demo_feed) = 2"
  by code_simp

lemma insert_loop_all_ok:
  "\<forall>i r. insert_result env i r = InsertOk \<Longrightarrow>
   insert_loop env i rs w = (Inr (i + length rs), w\<lparr>table := table w @ rs\<rparr>)"
  by (induction rs arbitrary: i w) (simp_all add: db_insert_def)

lemma refresh_all_ok:
  assumes "snapshot w = None"
    and "fetch_instruments env = FetchResponse response" and "response_ok response"
    and "resp_body response = Some csvText" and "parseCSV csvText = Inr csvData"
    and "delete_fails env = None" and "prepare_fails env = None"
    and "begin_fails env = None" and "commit_fails env = None"
    and "\<forall>i r. insert_result env i r = InsertOk"
  shows "success (fst (performInstrumentsRefresh env w))"
  using assms
  by (simp add: performInstrumentsRefresh_def read_ist_timestamp_def Let_def db_delete_all_def
        db_prepare_insert_def insert_transaction_def db_begin_def db_commit_def
        insert_loop_all_ok)

lemma demo_insert_fails_facts:
  "snapshot demo_world = None"
  "fetch_instruments demo_env_insert_fails
   = FetchResponse \<lparr>resp_status = 200, resp_statusText = ''OK'', resp_body = Some demo_feed\<rparr>"
  "response_ok \<lparr>resp_status = 200, resp_statusText = ''OK'', resp_body = Some demo_feed\<rparr>"
  "resp_body \<lparr>resp_status = 200, resp_statusText = ''OK'', resp_body = Some demo_feed\<rparr> = Some demo_feed"
  "delete_fails demo_env_insert_fails = None" "prepare_fails demo_env_insert_fails = None"
  "begin_fails demo_env_insert_fails = None"
  by (simp_all add: demo_world_def demo_env_insert_fails_def demo_env_def response_ok_def)

lemma demo_second_insert_fails:
  "\<exists>j<length [a, b :: csv_row]. insert_result demo_env_insert_fails j (f ([a, b] ! j)) \<noteq> InsertOk"
proof -
  have "insert_result demo_env_insert_fails 1 (f ([a, b] ! 1)) \<noteq> InsertOk"
    by (simp add: demo_env_insert_fails_def)
  then show ?thesis by (intro exI [of _ 1]) simp
qed

text \<open>
  Claim C1 as stated fails: with one old row in the table and a feed whose second insert
  fails, the run fails and the table is empty afterwards, not back at the old row.
\<close>

theorem refresh_not_all_or_nothing_counterexample:
  "\<not> success (fst (performInstrumentsRefresh demo_env_insert_fails demo_world))
   \<and> table (snd (performInstrumentsRefresh demo_env_insert_fails demo_world)) = []
   \<and> table demo_world = [demo_old_row]"
  using insert_error_outcome [OF demo_insert_fails_facts(1-4) demo_parse
    demo_insert_fails_facts(5-7) demo_second_insert_fails]
  by (simp add: demo_world_def)

theorem refresh_insert_error_leaves_empty_witness:
  "snapshot demo_world = None
   \<and> \<not> success (fst (performInstrumentsRefresh demo_env_insert_fails demo_world))
   \<and> count (fst (performInstrumentsRefresh demo_env_insert_fails demo_world)) = 0
   \<and> table (snd (performInstrumentsRefresh demo_env_insert_fails demo_world)) = []
   \<and> snapshot (snd (performInstrumentsRefresh demo_env_insert_fails demo_world)) = None"
  using refresh_insert_error_leaves_empty [OF demo_insert_fails_facts(1-4) demo_parse
    demo_insert_fails_facts(5-7) demo_second_insert_fails] demo_insert_fails_facts(1)
  by simp

theorem refresh_failure_old_or_empty_witness:
  "snapshot demo_world = None
   \<and> \<not> success (fst (performInstrumentsRefresh demo_env_insert_fails demo_world))
   \<and> (table (snd (performInstrumentsRefresh demo_env_insert_fails demo_world)) = table demo_world
        \<or> table (snd (performInstrumentsRefresh demo_env_insert_fails demo_world)) = [])
   \<and> snapshot (snd (performInstrumentsRefresh demo_env_insert_fails demo_world)) = None"
proof -
  have n: "\<not> success (fst (performInstrumentsRefresh demo_env_insert_fails demo_world))"
    using insert_error_outcome [OF demo_insert_fails_facts(1-4) demo_parse
      demo_insert_fails_facts(5-7) demo_second_insert_fails] by simp
  have r: "performInstrumentsRefresh demo_env_insert_fails demo_world
        = (fst (performInstrumentsRefresh demo_env_insert_fails demo_world),
           snd (performInstrumentsRefresh demo_env_insert_fails demo_world))" by simp
  from refresh_failure_old_or_empty [OF demo_insert_fails_facts(1) r n]
    demo_insert_fails_facts(1) n
  show ?thesis by simp
qed

lemma demo_ok_facts:
  "snapshot demo_world = None"
  "fetch_instruments demo_env
   = FetchResponse \<lparr>resp_status = 200, resp_statusText = ''OK'', resp_body = Some demo_feed\<rparr>"
  "response_ok \<lparr>resp_status = 200, resp_statusText = ''OK'', resp_body = Some demo_feed\<rparr>"
  "resp_body \<lparr>resp_status = 200, resp_statusText = ''OK'', resp_body = Some demo_feed\<rparr> = Some demo_feed"
  "delete_fails demo_env = None" "prepare_fails demo_env = None"
  "begin_fails demo_env = None" "commit_fails demo_env = None"
  "\<forall>i r. insert_result demo_env i r = InsertOk"
  by (simp_all add: demo_world_def demo_env_def response_ok_def)

theorem refresh_success_rows_witness:
  "success (fst (performInstrumentsRefresh demo_env demo_world))
   \<and> length (table (snd (performInstrumentsRefresh demo_env demo_world))) = 2
   \<and> count (fst (performInstrumentsRefresh demo_env demo_world)) = 2
   \<and> list_all (\<lambda>r. updated_at r = ''2024-01-10 09:00:00'')
        (table (snd (performInstrumentsRefresh demo_env demo_world)))"
proof -
  have ok: "success (fst (performInstrumentsRefresh demo_env demo_world))"
    using demo_ok_facts(1-4) demo_parse demo_ok_facts(5-9) by (rule refresh_all_ok)
  have r: "performInstrumentsRefresh demo_env demo_world
        = (fst (performInstrumentsRefresh demo_env demo_world),
           snd (performInstrumentsRefresh demo_env demo_world))" by simp
  have ts: "getISTTimestamp (env_date_utc demo_env) (env_clock demo_env (ticks demo_world))
            = ''2024-01-10 09:00:00''"
    by (simp add: demo_env_def demo_clock_now)
  from refresh_success_rows [OF r ok] ok show ?thesis
    by (auto simp add: demo_ok_facts(2) demo_feed_lines ts list_all_iff)
qed

section \<open>Properties of the login handler and the session drivers\<close>

subsection \<open>The path of a verified request\<close>



lemma select_latest_session_newest:
  assumes "select_latest_session env uid rows = Some row"
  shows "row \<in> set rows \<and> sr_user_id row = JStr uid
         \<and> (\<forall>r\<in>set rows. sr_user_id r = JStr uid \<longrightarrow> sr_created_at r \<le> sr_created_at row)"
proof -
  define latest where "latest = latest_sessions uid rows"
  from assms have ne: "latest \<noteq> []"
    and row: "row = latest ! (le_tie_break env latest mod length latest)"
    by (auto simp add: select_latest_session_def latest_def Let_def split: if_splits)
  have "le_tie_break env latest mod length latest < length latest" using ne by simp
  then have "row \<in> set latest" unfolding row by (rule nth_mem)
  then show ?thesis
    by (auto simp add: latest_def latest_sessions_def Let_def list_all_iff)
qed

subsection \<open>What the drivers leave behind\<close>

lemma fetch_sessions [simp]: "lw_sessions (snd (fetch env c w)) = lw_sessions w"
  by (simp add: fetch_def)

lemma grows_refl [simp]: "grows w w"
  by (simp add: grows_def)

lemma grows_trans: "grows w w1 \<Longrightarrow> grows w1 w2 \<Longrightarrow> grows w w2"
  by (auto simp add: grows_def)

lemma grows_fetch: "fetch env c w = (r, w') \<Longrightarrow> grows w w'"
  by (auto simp add: fetch_def grows_def)

lemma grows_read_clock: "read_clock env w = (t, w') \<Longrightarrow> grows w w'"
  by (auto simp add: read_clock_def grows_def)

lemma grows_oms_after_twofa:
  "oms_after_twofa env user_id loginCookies twofaResponse w = (r, w') \<Longrightarrow> grows w w'"
  unfolding oms_after_twofa_def Let_def
  by (auto split: if_splits sum.splits js_error.splits option.splits prod.splits
        dest: grows_read_clock)

lemma grows_oms_after_login:
  "oms_after_login env totpSecret loginResponse w = (r, w') \<Longrightarrow> grows w w'"
  unfolding oms_after_login_def Let_def
  by (auto split: if_splits sum.splits js_error.splits option.splits prod.splits
        http_outcome.splits
        dest!: grows_read_clock grows_fetch grows_oms_after_twofa intro: grows_trans)

lemma login_sent_grows: "login_sent uid pw w w1 \<Longrightarrow> grows w1 w2 \<Longrightarrow> login_sent uid pw w w2"
  by (auto simp add: login_sent_def grows_def)

lemma login_sent_OMS:
  assumes "generateOMSSession env uid pw secret w = (r, w')"
  shows "login_sent uid pw w w'"
proof -
  let ?w1 = "w\<lparr>lw_trace := lw_trace w @ [LoginPost uid pw]\<rparr>"
  have s: "login_sent uid pw w ?w1" by (simp add: login_sent_def)
  show ?thesis
  proof (cases "le_respond env (lw_trace w) (LoginPost uid pw)")
    case (NetworkError m)
    with assms have "w' = ?w1" by (simp add: generateOMSSession_def fetch_def)
    with s show ?thesis by simp
  next
    case (Response loginResponse)
    with assms have "oms_after_login env secret loginResponse ?w1 = (r, w')"
      by (simp add: generateOMSSession_def fetch_def)
    from login_sent_grows [OF s grows_oms_after_login [OF this]] show ?thesis .
  qed
qed

lemma grows_getSessionID: "getSessionID env k c w = (r, w') \<Longrightarrow> grows w w'"
  unfolding getSessionID_def Let_def
  by (auto simp add: fetch_def grows_def
        split: if_splits option.splits http_outcome.splits url_param.splits)

lemma grows_getRequestToken: "getRequestToken env k s c w = (r, w') \<Longrightarrow> grows w w'"
  unfolding getRequestToken_def Let_def
  by (auto simp add: fetch_def grows_def
        split: if_splits option.splits http_outcome.splits url_param.splits)

lemma grows_generateSessionToken: "generateSessionToken env k t c w = (r, w') \<Longrightarrow> grows w w'"
  unfolding generateSessionToken_def Let_def
  by (auto simp add: fetch_def grows_def
        split: if_splits option.splits http_outcome.splits sum.splits)

lemma login_sent_API:
  assumes "generateAPISession env uid pw secret k s w = (r, w')"
  shows "login_sent uid pw w w'"
proof (cases "generateOMSSession env uid pw secret w")
  case (Pair r1 w1)
  note o = login_sent_OMS [OF Pair]
  show ?thesis
  proof (cases r1)
    case (OmsFailed err)
    with Pair assms o show ?thesis by (simp add: generateAPISession_def)
  next
    case (OmsOk oms)
    define cookies where "cookies = (if oms_raw_cookies oms = [] then []
                          else convertSetCookieToCookie (oms_raw_cookies oms))"
    obtain r2 w2 where g2: "getSessionID env k cookies w1 = (r2, w2)"
      by (cases "getSessionID env k cookies w1")
    note o2 = login_sent_grows [OF o grows_getSessionID [OF g2]]
    show ?thesis
    proof (cases r2)
      case None
      with Pair OmsOk g2 assms o2 show ?thesis
        by (simp add: generateAPISession_def cookies_def Let_def)
    next
      case (Some sessId)
      obtain r3 w3 where g3: "getRequestToken env k sessId cookies w2 = (r3, w3)"
        by (cases "getRequestToken env k sessId cookies w2")
      note o3 = login_sent_grows [OF o2 grows_getRequestToken [OF g3]]
      show ?thesis
      proof (cases r3)
        case None
        with Pair OmsOk g2 Some g3 assms o3 show ?thesis
          by (simp add: generateAPISession_def cookies_def Let_def)
      next
        case (Some requestToken)
        obtain r4 w4 where g4: "generateSessionToken env k requestToken
            (generateChecksum env k requestToken s) w3 = (r4, w4)"
          by (cases "generateSessionToken env k requestToken
            (generateChecksum env k requestToken s) w3")
        note o4 = login_sent_grows [OF o3 grows_generateSessionToken [OF g4]]
        from Pair OmsOk g2 \<open>r2 = Some sessId\<close> g3 Some g4 assms o4 show ?thesis
          by (auto simp add: generateAPISession_def cookies_def Let_def split: if_splits)
      qed
    qed
  qed
qed

lemma login_sent_generateSession:
  assumes "generateSession env uid pw secret api_key api_secret w = (r, w')"
  shows "login_sent uid pw w w'"
  using assms unfolding generateSession_def
  by (auto split: option.splits if_splits prod.splits oms_result.splits
        dest: login_sent_API login_sent_OMS)

lemma grows_getUserProfile: "getUserProfile env t w = (r, w') \<Longrightarrow> grows w w'"
  unfolding getUserProfile_def Let_def
  by (auto simp add: fetch_def grows_def
        split: if_splits option.splits http_outcome.splits sum.splits)

lemma trace_insert_session [simp]: "lw_trace (insert_session env row w) = lw_trace w"
  by (simp add: insert_session_def)




lemma isEnctokenValid_eq:
  "isEnctokenValid env t w
   = ((case le_respond env (lw_trace w) (ProfileGet (Some t)) of
         NetworkError m \<Rightarrow> False | Response r \<Rightarrow> hr_status r = 200),
      w\<lparr>lw_trace := lw_trace w @ [ProfileGet (Some t)]\<rparr>)"
  by (simp add: isEnctokenValid_def fetch_def split: http_outcome.splits)


subsection \<open>No empty bearer token is stored\<close>

lemma or_null_nonempty: "or_null s \<noteq> Some []"
  by (simp add: or_null_def split: option.splits)

lemma tokens_insert_session:
  assumes "tokens_nonempty (lw_sessions w)" and "sr_enctoken row \<noteq> Some []"
  shows "tokens_nonempty (lw_sessions (insert_session env row w))"
  using assms by (simp add: insert_session_def tokens_nonempty_def)

lemma tokens_save_api:
  assumes "save_api_session env oms api w = (r, w')" and "tokens_nonempty (lw_sessions w)"
  shows "tokens_nonempty (lw_sessions w')"
  using assms unfolding save_api_session_def Let_def read_clock_def
  by (auto intro!: tokens_insert_session simp add: or_null_nonempty)

lemma tokens_save_oms:
  assumes "save_oms_session env uid oms w = (r, w')" and "tokens_nonempty (lw_sessions w)"
  shows "tokens_nonempty (lw_sessions w')"
proof (cases "getUserProfile env (oms_enctoken oms) w")
  case (Pair profile w1)
  from grows_getUserProfile [OF Pair] assms(2) have t1: "tokens_nonempty (lw_sessions w1)"
    by (simp add: grows_def)
  from assms(1) t1 show ?thesis
    unfolding save_oms_session_def Pair Let_def read_clock_def
    by (auto intro!: tokens_insert_session simp add: or_null_nonempty
          split: if_splits option.splits prod.splits)
qed

lemma tokens_fresh_login:
  assumes "fresh_login env uid pw secret api_key api_secret w = (r, w')"
    and "tokens_nonempty (lw_sessions w)"
  shows "tokens_nonempty (lw_sessions w')"
proof (cases "generateSession env uid pw secret api_key api_secret w")
  case (Pair r1 w1)
  from login_sent_generateSession [OF Pair] assms(2)
  have t1: "tokens_nonempty (lw_sessions w1)" by (simp add: login_sent_def)
  show ?thesis
  proof (cases r1)
    case (SessionFailed err)
    with Pair assms(1) t1 show ?thesis by (auto simp add: fresh_login_def)
  next
    case (OmsSession oms)
    with Pair assms(1) have "save_oms_session env uid oms w1 = (r, w')"
      by (simp add: fresh_login_def)
    from tokens_save_oms [OF this t1] show ?thesis .
  next
    case (ApiSession oms api)
    with Pair assms(1) have "save_api_session env oms api w1 = (r, w')"
      by (simp add: fresh_login_def)
    from tokens_save_api [OF this t1] show ?thesis .
  qed
qed

lemma tokens_session_or_login:
  assumes "session_or_login env uid pw secret api_key api_secret w = (r, w')"
    and "tokens_nonempty (lw_sessions w)"
  shows "tokens_nonempty (lw_sessions w')"
proof -
  have probe: "tokens_nonempty (lw_sessions (snd (isEnctokenValid env t w)))" for t
    using assms(2) by (simp add: isEnctokenValid_eq)
  from assms(1) show ?thesis
    unfolding session_or_login_def Let_def
    using assms(2) probe
    by (auto split: option.splits if_splits prod.splits sum.splits js_error.splits
          dest: tokens_fresh_login simp add: isEnctokenValid_eq)
qed

lemma handleLogin_stores_no_empty_token:
  assumes "handleLogin env req w = (r, w')" and "tokens_nonempty (lw_sessions w)"
  shows "tokens_nonempty (lw_sessions w')"
  using assms unfolding handleLogin_def Let_def
  by (auto split: option.splits if_splits sum.splits js_error.splits
        dest: tokens_session_or_login)

subsection \<open>Running the handler\<close>








lemma demo_oms_ok:
  "\<exists>oms w1. generateOMSSession (demo_login_env 200 200 c d) ''AB1234'' ''pw'' ''GEZDGNBV''
     (demo_login_world []) = (OmsOk oms, w1)"
  by (simp add: generateOMSSession_def fetch_def demo_login_env_def
        demo_broker_def demo_login_world_def oms_after_login_def oms_after_twofa_def
        http_ok_def demo_response_def demo_login_json_def js_prop_def read_clock_def
        demo_totp_value Let_def)





subsection \<open>The claims\<close>



text \<open>
  Claim C5. The OMS session is there and the no-follow GET to the connect endpoint is
  not answered by a 302 whose \<open>Location\<close> carries a \<open>sess_id\<close>: the answer has another
  status (200, say), or no \<open>Location\<close> or an empty one, or a \<open>Location\<close> that is no URL or
  has no \<open>sess_id\<close> or an empty one, or the request fails on the network. Then
  \<open>generateAPISession\<close> fails with the error \<open>Failed to get session ID\<close>, and the connect
  GET is the last request: neither the finish GET nor the token post is sent, and the
  world is otherwise as the OMS session left it.
\<close>

theorem generateAPISession_connect_not_redirected:
  assumes oms: "generateOMSSession env userId password totpSecret w = (OmsOk omsResult, w1)"
    and cookies: "cookies = (if oms_raw_cookies omsResult = [] then []
                             else convertSetCookieToCookie (oms_raw_cookies omsResult))"
    and rej: "(\<exists>m. le_respond env (lw_trace w1) (ConnectGet apiKey cookies) = NetworkError m)
              \<or> (\<exists>response. le_respond env (lw_trace w1) (ConnectGet apiKey cookies)
                               = Response response
                    \<and> (hr_status response \<noteq> 302 \<or> hr_location response = None
                        \<or> hr_location response = Some []
                        \<or> (\<exists>location. hr_location response = Some location
                              \<and> (le_url_param env location True ''sess_id'' = ParamAbsent
                                  \<or> le_url_param env location True ''sess_id'' = UrlInvalid
                                  \<or> le_url_param env location True ''sess_id''
                                      = ParamValue []))))"
  shows "generateAPISession env userId password totpSecret apiKey apiSecret w
         = (SessionFailed ''Failed to get session ID'',
            w1\<lparr>lw_trace := lw_trace w1 @ [ConnectGet apiKey cookies]\<rparr>)"
proof -
  have "getSessionID env apiKey cookies w1
        = (None, w1\<lparr>lw_trace := lw_trace w1 @ [ConnectGet apiKey cookies]\<rparr>)"
    using rej unfolding getSessionID_def fetch_def Let_def by auto
  then show ?thesis
    unfolding generateAPISession_def oms Let_def cookies by simp
qed

theorem generateAPISession_connect_not_redirected_witness:
  "fst (generateAPISession (demo_login_env 200 200 200 200) ''AB1234'' ''pw'' ''GEZDGNBV''
          ''key1'' ''s1'' (demo_login_world []))
     = SessionFailed ''Failed to get session ID''
   \<and> lw_trace (snd (generateAPISession (demo_login_env 200 200 200 200)
          ''AB1234'' ''pw'' ''GEZDGNBV'' ''key1'' ''s1'' (demo_login_world [])))
     = [LoginPost ''AB1234'' ''pw'',
        TwofaPost (JStr ''AB1234'') (JStr ''req1'') ''216501'' (JStr ''totp'')
          ''kf_session=k1; enctoken=e1'',
        ConnectGet ''key1'' ''kf_session=k1; enctoken=e1; kf_session=k1; enctoken=e1'']"
proof -
  define env where "env = demo_login_env 200 200 200 200"
  obtain oms w1 where o: "generateOMSSession env ''AB1234'' ''pw''
      ''GEZDGNBV'' (demo_login_world []) = (OmsOk oms, w1)"
    using demo_oms_ok unfolding env_def by blast
  have c1: "convertSetCookieToCookie ''kf_session=k1; Path=/, enctoken=e1; Path=/''
           = ''kf_session=k1; enctoken=e1''"
    by code_simp
  have c2: "convertSetCookieToCookie (allCookies ''kf_session=k1; Path=/, enctoken=e1; Path=/''
              ''kf_session=k1; Path=/, enctoken=e1; Path=/'')
           = ''kf_session=k1; enctoken=e1; kf_session=k1; enctoken=e1''"
    by code_simp
  have ne: "allCookies ''kf_session=k1; Path=/, enctoken=e1; Path=/''
              ''kf_session=k1; Path=/, enctoken=e1; Path=/'' \<noteq> []"
    by code_simp
  from o have w1: "lw_trace w1 = [LoginPost ''AB1234'' ''pw'',
        TwofaPost (JStr ''AB1234'') (JStr ''req1'') ''216501'' (JStr ''totp'')
          ''kf_session=k1; enctoken=e1'']"
    and raw: "oms_raw_cookies oms = allCookies ''kf_session=k1; Path=/, enctoken=e1; Path=/''
              ''kf_session=k1; Path=/, enctoken=e1; Path=/''"
    by (auto simp add: env_def generateOMSSession_def fetch_def demo_login_env_def
        demo_broker_def demo_login_world_def oms_after_login_def oms_after_twofa_def
        http_ok_def demo_response_def demo_login_json_def js_prop_def read_clock_def
        demo_totp_value Let_def c1)
  define cookies where "cookies = (if oms_raw_cookies oms = [] then []
                             else convertSetCookieToCookie (oms_raw_cookies oms))"
  have ck: "cookies = ''kf_session=k1; enctoken=e1; kf_session=k1; enctoken=e1''"
    using ne by (simp add: cookies_def raw c2)
  have r: "le_respond env (lw_trace w1) (ConnectGet ''key1'' cookies)
           = Response (demo_response 200 ''<html>'' JNull)"
    by (simp add: env_def demo_login_env_def demo_broker_def)
  have s: "hr_status (demo_response 200 ''<html>'' JNull) \<noteq> 302"
    by (simp add: demo_response_def)
  from generateAPISession_connect_not_redirected [OF o cookies_def, of "''key1''" "''s1''"] r s
  have "generateAPISession env ''AB1234'' ''pw'' ''GEZDGNBV'' ''key1'' ''s1'' (demo_login_world [])
        = (SessionFailed ''Failed to get session ID'',
           w1\<lparr>lw_trace := lw_trace w1 @ [ConnectGet ''key1'' cookies]\<rparr>)"
    by auto
  then show ?thesis by (simp add: env_def [symmetric] w1 ck)
qed



end
